theory Spec2Isabelle
  imports Main "HOL-Library.Signed_Division"
begin

section \<open>Data model of the line parser (oviewer/content.go)\<close>

text \<open>
  A Go \<^verbatim>\<open>rune\<close> is a signed 32-bit code point. The parser only compares runes and
  copies them, so they are modelled as integers. A Go \<^verbatim>\<open>string\<close> is a byte sequence,
  which is what \<^typ>\<open>string\<close> is in HOL.
\<close>

type_synonym rune = int

text \<open>\<^verbatim>\<open>type content struct { width int; mainc rune; combc []rune; style tcell.Style }\<close>.
  The type \<^verbatim>\<open>tcell.Style\<close> belongs to a library outside the repository and is the type
  parameter \<open>'s\<close>.\<close>

record 's content =
  width :: int
  mainc :: rune
  combc :: "rune list"
  style :: 's

type_synonym 's lineContents = "'s content list"

text \<open>The states of the ANSI escape code parser.\<close>

datatype ansiState = ansiText | ansiEscape | ansiSubstring | ansiControlSequence

text \<open>Modelled from the spec: the declaration of \<^verbatim>\<open>ovStyle\<close> is not among the sources.
  The spec gives it as the attribute record with seven boolean flags and two colour
  strings, the empty string meaning unset; \<^verbatim>\<open>parseCSI\<close> assigns exactly these fields.\<close>

record ovStyle =
  Bold :: bool
  Dim :: bool
  Italic :: bool
  Underline :: bool
  Blink :: bool
  Reverse :: bool
  StrikeThrough :: bool
  Foreground :: string
  Background :: string

text \<open>The Go zero value \<^verbatim>\<open>ovStyle{}\<close>.\<close>

definition ovStyle_zero :: ovStyle where
  "ovStyle_zero =
     \<lparr>Bold = False, Dim = False, Italic = False, Underline = False, Blink = False,
      Reverse = False, StrikeThrough = False, Foreground = [], Background = []\<rparr>"

text \<open>A value stored in the line cache of the model is an \<^verbatim>\<open>interface{}\<close>: it either
  holds a \<^verbatim>\<open>lineContents\<close> or a value of some other dynamic type.\<close>

datatype 's cacheValue = LineContentsValue "'s lineContents" | OtherValue

text \<open>
  Everything the code takes from outside the two source files is a field of the
  environment:
  \<^item> \<open>Graphemes\<close>: the grapheme clusters \<^verbatim>\<open>uniseg.NewGraphemes(str)\<close> iterates over, in
    order; a cluster is never empty, so it is its first rune and the remaining runes;
  \<^item> \<open>RuneWidth\<close>: \<^verbatim>\<open>runewidth.RuneWidth\<close>;
  \<^item> \<open>StyleDefault\<close>, \<open>StyleNormal\<close>, \<open>StyleReverse\<close>: \<^verbatim>\<open>tcell.StyleDefault\<close> and the
    methods \<^verbatim>\<open>Normal()\<close> and \<^verbatim>\<open>Reverse(on)\<close> of \<^verbatim>\<open>tcell.Style\<close>;
  \<^item> \<open>applyStyle\<close>, \<open>OverStrikeStyle\<close>, \<open>OverLineStyle\<close>: a function and two variables of
    the package that are declared in another file;
  \<^item> \<open>cacheSet\<close>: \<^verbatim>\<open>ristretto.Cache.Set(key, value, cost)\<close>, which may or may not admit
    the entry.
\<close>

record 's env =
  Graphemes :: "string \<Rightarrow> (rune \<times> rune list) list"
  RuneWidth :: "rune \<Rightarrow> int"
  StyleDefault :: 's
  StyleNormal :: "'s \<Rightarrow> 's"
  StyleReverse :: "'s \<Rightarrow> bool \<Rightarrow> 's"
  applyStyle :: "'s \<Rightarrow> ovStyle \<Rightarrow> 's"
  OverStrikeStyle :: 's
  OverLineStyle :: 's
  cacheSet :: "(int \<rightharpoonup> 's cacheValue) \<Rightarrow> int \<Rightarrow> 's cacheValue \<Rightarrow> int \<Rightarrow> (int \<rightharpoonup> 's cacheValue)"

text \<open>\<^verbatim>\<open>DefaultContent\<close> is a blank content.\<close>

definition DefaultContent :: "'s env \<Rightarrow> 's content" where
  "DefaultContent E = \<lparr>width = 0, mainc = 0, combc = [], style = StyleDefault E\<rparr>"

text \<open>The zero value \<^verbatim>\<open>content{}\<close>; the zero \<^verbatim>\<open>tcell.Style\<close> is \<^verbatim>\<open>tcell.StyleDefault\<close>.\<close>

definition content_zero :: "'s env \<Rightarrow> 's content" where
  "content_zero E = \<lparr>width = 0, mainc = 0, combc = [], style = StyleDefault E\<rparr>"

section \<open>Functions of the Go standard library\<close>

text \<open>UTF-8 encoding of a rune, as \<^verbatim>\<open>bytes.Buffer.WriteRune\<close> and the conversion
  \<^verbatim>\<open>string(r)\<close> perform it: a rune that is out of range or a surrogate half is encoded
  as U+FFFD.\<close>

definition encodeRune :: "rune \<Rightarrow> string" where
  "encodeRune r0 =
     (let r = (if r0 < 0 \<or> 0x10FFFF < r0 \<or> (0xD800 \<le> r0 \<and> r0 \<le> 0xDFFF) then 0xFFFD else r0)
      in if r < 0x80 then [char_of r]
         else if r < 0x800 then [char_of (0xC0 + r div 64), char_of (0x80 + r mod 64)]
         else if r < 0x10000 then
           [char_of (0xE0 + r div 4096), char_of (0x80 + (r div 64) mod 64), char_of (0x80 + r mod 64)]
         else
           [char_of (0xF0 + r div 262144), char_of (0x80 + (r div 4096) mod 64),
            char_of (0x80 + (r div 64) mod 64), char_of (0x80 + r mod 64)])"

text \<open>\<^verbatim>\<open>strings.Split(s, sep)\<close> for a separator of one byte: the fields between the
  separators, one field (the empty one) for the empty string.\<close>

fun Split :: "string \<Rightarrow> char \<Rightarrow> string list" where
  "Split [] sep = [[]]"
| "Split (c # cs) sep =
     (if c = sep then [] # Split cs sep
      else (case Split cs sep of [] \<Rightarrow> [[c]] | f # fs \<Rightarrow> (c # f) # fs))"

text \<open>\<^verbatim>\<open>strconv.Atoi\<close> with the error dropped, as every call site does
  (\<^verbatim>\<open>n, _ := strconv.Atoi(field)\<close>): an optional sign and decimal digits; 0 on a syntax
  error; the nearest 64-bit bound when the value is out of range.\<close>

definition isDigit :: "char \<Rightarrow> bool" where
  "isDigit c = (48 \<le> (of_char c :: int) \<and> (of_char c :: int) \<le> 57)"

definition digitsValue :: "string \<Rightarrow> int" where
  "digitsValue ds = foldl (\<lambda>n c. n * 10 + (of_char c - 48)) 0 ds"

definition Atoi :: "string \<Rightarrow> int" where
  "Atoi s =
     (let neg = (s \<noteq> [] \<and> hd s = CHR ''-'');
          ds = (if s \<noteq> [] \<and> (hd s = CHR ''-'' \<or> hd s = CHR ''+'') then tl s else s)
      in if ds = [] \<or> \<not> list_all isDigit ds then 0
         else if neg then max (- (2 ^ 63)) (- digitsValue ds)
         else min (2 ^ 63 - 1) (digitsValue ds))"

text \<open>\<^verbatim>\<open>fmt.Sprintf("%02x", n)\<close>: lower-case hexadecimal, zero-padded to two columns,
  the sign of a negative number taking one of them.\<close>

definition hexDigit :: "int \<Rightarrow> char" where
  "hexDigit d = (if d < 10 then char_of (48 + d) else char_of (87 + d))"

function hexDigits :: "int \<Rightarrow> string" where
  "hexDigits n = (if n < 16 then [hexDigit n] else hexDigits (n div 16) @ [hexDigit (n mod 16)])"
  by pat_completeness auto
termination
  by (relation "measure nat") auto

definition Sprintf_02x :: "int \<Rightarrow> string" where
  "Sprintf_02x n =
     (if n < 0 then CHR ''-'' # hexDigits (- n)
      else if n < 16 then CHR ''0'' # hexDigits n
      else hexDigits n)"

text \<open>\<^verbatim>\<open>fmt.Sprintf("#%02x%02x%02x", r, g, b)\<close>.\<close>

definition Sprintf_rgb :: "int \<Rightarrow> int \<Rightarrow> int \<Rightarrow> string" where
  "Sprintf_rgb r g bl = CHR ''#'' # Sprintf_02x r @ Sprintf_02x g @ Sprintf_02x bl"

section \<open>The colour mapper\<close>

text \<open>\<^verbatim>\<open>lookupColor\<close> returns the colour name from the colour number.\<close>

definition lookupColor :: "int \<Rightarrow> string" where
  "lookupColor colorNumber =
     (if colorNumber < 0 \<or> colorNumber > 15 then ''black''
      else [''black'', ''maroon'', ''green'', ''olive'', ''navy'', ''purple'', ''teal'',
            ''silver'', ''gray'', ''red'', ''lime'', ''yellow'', ''blue'', ''fuchsia'',
            ''aqua'', ''white''] ! nat colorNumber)"

text \<open>\<^verbatim>\<open>colorName\<close>. The divisions have non-negative operands (the colour number is above
  15 where they occur), so Go's truncating \<^verbatim>\<open>/\<close> and \<^verbatim>\<open>%\<close> are \<open>div\<close> and \<open>mod\<close>.\<close>

definition colorName :: "int \<Rightarrow> string" where
  "colorName colorNumber =
     (if colorNumber \<le> 7 then lookupColor colorNumber
      else if colorNumber \<le> 15 then lookupColor colorNumber
      else if colorNumber \<le> 231 then
        (let red = (colorNumber - 16) div 36;
             green = ((colorNumber - 16) div 6) mod 6;
             blue = (colorNumber - 16) mod 6
         in Sprintf_rgb (255 * red div 5) (255 * green div 5) (255 * blue div 5))
      else if colorNumber \<le> 255 then
        (let grey = 255 * (colorNumber - 232) div 23 in Sprintf_rgb grey grey grey)
      else [])"

text \<open>\<^verbatim>\<open>csColor\<close> parses 8-bit and 24-bit colours. It receives the fields from the
  \<^verbatim>\<open>38\<close> or \<^verbatim>\<open>48\<close> token on and returns how many further fields it has consumed.\<close>

definition csColor :: "ovStyle \<Rightarrow> string list \<Rightarrow> int \<times> ovStyle" where
  "csColor st fs =
     (if length fs < 2 then (1, st)
      else
        let fg = fs ! 0;
            (index, color) =
              (if fs ! 1 = ''5'' \<and> length fs > 2 then (2, colorName (Atoi (fs ! 2)))
               else if fs ! 1 = ''2'' \<and> length fs > 4 then
                 (4, Sprintf_rgb (Atoi (fs ! 2)) (Atoi (fs ! 3)) (Atoi (fs ! 4)))
               else (1, []))
        in if length color > 0 then
             (if fg = ''38'' then (index, st\<lparr>Foreground := color\<rparr>)
              else (index, st\<lparr>Background := color\<rparr>))
           else (index, st))"

section \<open>The SGR style resolver\<close>

text \<open>The loop of \<^verbatim>\<open>parseCSI\<close> over \<^verbatim>\<open>fields[index:]\<close>. After a \<^verbatim>\<open>38\<close> or \<^verbatim>\<open>48\<close>
  token the index advances by what \<^verbatim>\<open>csColor\<close> returns and then by the loop's own
  increment. In the colour cases the field is one of the listed literals, so the
  conversion through \<^verbatim>\<open>tcell.Color\<close> and back leaves the small number unchanged.\<close>

function parseCSI_fields :: "ovStyle \<Rightarrow> string list \<Rightarrow> ovStyle" where
  "parseCSI_fields st [] = st"
| "parseCSI_fields st (field # rest) =
     (if field = ''1'' \<or> field = ''01'' then parseCSI_fields (st\<lparr>Bold := True\<rparr>) rest
      else if field = ''2'' \<or> field = ''02'' then parseCSI_fields (st\<lparr>Dim := True\<rparr>) rest
      else if field = ''3'' \<or> field = ''03'' then parseCSI_fields (st\<lparr>Italic := True\<rparr>) rest
      else if field = ''4'' \<or> field = ''04'' then parseCSI_fields (st\<lparr>Underline := True\<rparr>) rest
      else if field = ''5'' \<or> field = ''05'' then parseCSI_fields (st\<lparr>Blink := True\<rparr>) rest
      else if field = ''6'' \<or> field = ''06'' then parseCSI_fields (st\<lparr>Blink := True\<rparr>) rest
      else if field = ''7'' \<or> field = ''07'' then parseCSI_fields (st\<lparr>Reverse := True\<rparr>) rest
      else if field = ''8'' \<or> field = ''08'' then parseCSI_fields (st\<lparr>Reverse := True\<rparr>) rest
      else if field = ''9'' \<or> field = ''09'' then parseCSI_fields (st\<lparr>StrikeThrough := True\<rparr>) rest
      else if field \<in> set [''22'', ''24'', ''25'', ''27''] then parseCSI_fields ovStyle_zero rest
      else if field \<in> set [''30'', ''31'', ''32'', ''33'', ''34'', ''35'', ''36'', ''37''] then
        parseCSI_fields (st\<lparr>Foreground := colorName (Atoi field - 30)\<rparr>) rest
      else if field = ''39'' then parseCSI_fields (st\<lparr>Foreground := ''default''\<rparr>) rest
      else if field \<in> set [''40'', ''41'', ''42'', ''43'', ''44'', ''45'', ''46'', ''47''] then
        parseCSI_fields (st\<lparr>Background := colorName (Atoi field - 40)\<rparr>) rest
      else if field = ''49'' then parseCSI_fields (st\<lparr>Background := ''default''\<rparr>) rest
      else if field \<in> set [''90'', ''91'', ''92'', ''93'', ''94'', ''95'', ''96'', ''97''] then
        parseCSI_fields (st\<lparr>Foreground := colorName (Atoi field - 82)\<rparr>) rest
      else if field \<in> set [''100'', ''101'', ''102'', ''103'', ''104'', ''105'', ''106'', ''107''] then
        parseCSI_fields (st\<lparr>Background := colorName (Atoi field - 92)\<rparr>) rest
      else if field = ''38'' \<or> field = ''48'' then
        parseCSI_fields (snd (csColor st (field # rest))) (drop (nat (fst (csColor st (field # rest)))) rest)
      else parseCSI_fields st rest)"
  by pat_completeness auto
termination
  by (relation "measure (\<lambda>(st, fs). length fs)") auto

text \<open>\<^verbatim>\<open>parseCSI\<close> actually parses the style and returns an \<^verbatim>\<open>ovStyle\<close>.\<close>

definition parseCSI :: "string \<Rightarrow> ovStyle" where
  "parseCSI params = parseCSI_fields ovStyle_zero (Split params (CHR '';''))"

text \<open>\<^verbatim>\<open>csToStyle\<close> returns the \<^verbatim>\<open>tcell.Style\<close> from the control sequence. The global
  \<^verbatim>\<open>csiCache\<close> is passed in and returned; only this function stores into it, and what it
  stores is an \<^verbatim>\<open>ovStyle\<close>, so the type assertion on a loaded value cannot fail.\<close>

type_synonym csiCacheT = "string \<rightharpoonup> ovStyle"

definition csToStyle ::
    "'s env \<Rightarrow> csiCacheT \<Rightarrow> 's \<Rightarrow> string \<Rightarrow> 's \<times> csiCacheT" where
  "csToStyle E csiCache sty params =
     (if params = ''0'' \<or> params = [] \<or> params = '';'' then (StyleNormal E (StyleDefault E), csiCache)
      else (case csiCache params of
              Some s \<Rightarrow> (applyStyle E sty s, csiCache)
            | None \<Rightarrow> (let s = parseCSI params in (applyStyle E sty s, csiCache(params \<mapsto> s)))))"

section \<open>The line content parser\<close>

text \<open>The local variables of \<^verbatim>\<open>parseString\<close>, and the global \<^verbatim>\<open>csiCache\<close> that
  \<^verbatim>\<open>csToStyle\<close> reads and writes. The variable \<^verbatim>\<open>style\<close> is the field \<open>curStyle\<close>.\<close>

record 's pstate =
  lc :: "'s lineContents"
  state :: ansiState
  csiParameter :: string
  curStyle :: 's
  tabX :: int
  b :: int
  bsFlag :: bool
  bsContent :: "'s content"
  csiCache :: csiCacheT

definition initState :: "'s env \<Rightarrow> csiCacheT \<Rightarrow> 's pstate" where
  "initState E cch =
     \<lparr>lc = [], state = ansiText, csiParameter = [], curStyle = StyleDefault E, tabX = 0,
      b = 0, bsFlag = False, bsContent = content_zero E, csiCache = cch\<rparr>"

text \<open>\<^verbatim>\<open>overstrike\<close> returns an overstrike \<^verbatim>\<open>tcell.Style\<close>; \<open>0x5f\<close> is the underscore.\<close>

definition overstrike :: "'s env \<Rightarrow> rune \<Rightarrow> rune \<Rightarrow> 's \<Rightarrow> 's" where
  "overstrike E p m sty =
     (if p = m then OverStrikeStyle E else if p = 0x5f then OverLineStyle E else sty)"

text \<open>\<^verbatim>\<open>lastContent\<close> returns the last character of the contents.\<close>

definition lastContent :: "'s env \<Rightarrow> 's lineContents \<Rightarrow> 's content" where
  "lastContent E cells =
     (let n = length cells
      in if n = 0 then content_zero E
         else if n > 1 \<and> width (cells ! (n - 2)) > 1 then cells ! (n - 2)
         else cells ! (n - 1))"

text \<open>The tab branch (rune 9). Go's \<^verbatim>\<open>%\<close> truncates, which is \<open>smod\<close>; the loop
  \<^verbatim>\<open>for i := 0; i < tabStop-1; i++\<close> runs \<open>nat (tabStop - 1)\<close> times.\<close>

definition emitTab :: "'s env \<Rightarrow> int \<Rightarrow> 's pstate \<Rightarrow> 's pstate" where
  "emitTab E tabWidth \<sigma> =
     (if tabWidth > 0 then
        (let tabStop = tabWidth - (tabX \<sigma> smod tabWidth);
             c = (DefaultContent E)\<lparr>width := 1, style := curStyle \<sigma>, mainc := 9\<rparr>;
             k = nat (tabStop - 1)
         in \<sigma>\<lparr>lc := (lc \<sigma> @ [c]) @ replicate k (c\<lparr>mainc := 0\<rparr>),
              tabX := tabX \<sigma> + 1 + int k\<rparr>)
      else if tabWidth < 0 then
        (let c = (DefaultContent E)\<lparr>width := 1, style := StyleReverse E (curStyle \<sigma>) True,
                                    mainc := 0x5c\<rparr>
         in \<sigma>\<lparr>lc := (lc \<sigma> @ [c]) @ [c\<lparr>mainc := 0x74\<rparr>], tabX := tabX \<sigma> + 2\<rparr>)
      else \<sigma>)"

text \<open>The backspace branch (rune 8). Re-slicing \<^verbatim>\<open>lc[:len(lc)-2]\<close> panics when the slice
  is shorter than two; a panic is the result \<open>None\<close>.\<close>

definition backSpace :: "'s env \<Rightarrow> 's pstate \<Rightarrow> 's pstate option" where
  "backSpace E \<sigma> =
     (if length (lc \<sigma>) = 0 then Some \<sigma>
      else
        (let bsC = lastContent E (lc \<sigma>);
             \<sigma>1 = \<sigma>\<lparr>bsFlag := True, bsContent := bsC,
                      b := b \<sigma> - (1 + int (length (encodeRune (mainc bsC))))\<rparr>
         in if width bsC > 1 then
              (if length (lc \<sigma>) < 2 then None
               else Some (\<sigma>1\<lparr>lc := take (length (lc \<sigma>) - 2) (lc \<sigma>)\<rparr>))
            else Some (\<sigma>1\<lparr>lc := take (length (lc \<sigma>) - 1) (lc \<sigma>)\<rparr>)))"

text \<open>The remaining runes of width 0: the rune is appended to the combining runes of
  the last character, which is written back at \<^verbatim>\<open>len(lc) - lastC.width\<close>. The guard of
  the source checks the index from below only; an index that is not below the length
  panics.\<close>

definition attachMark :: "'s env \<Rightarrow> rune \<Rightarrow> 's pstate \<Rightarrow> 's pstate option" where
  "attachMark E runeValue \<sigma> =
     (let lastC0 = lastContent E (lc \<sigma>);
          lastC = lastC0\<lparr>combc := combc lastC0 @ [runeValue]\<rparr>;
          n = int (length (lc \<sigma>)) - width lastC
      in if n \<ge> 0 \<and> length (lc \<sigma>) > 0 then
           (if n < int (length (lc \<sigma>)) then Some (\<sigma>\<lparr>lc := (lc \<sigma>)[nat n := lastC]\<rparr>)
            else None)
         else Some \<sigma>)"

text \<open>The content that the branches for width 1 and width 2 build before appending it,
  and the state after the overstrike flag has been consumed.\<close>

definition newContent ::
    "'s env \<Rightarrow> rune \<times> rune list \<Rightarrow> int \<Rightarrow> 's pstate \<Rightarrow> 's content \<times> 's pstate" where
  "newContent E g w \<sigma> =
     (let c0 = (DefaultContent E)\<lparr>mainc := fst g\<rparr>;
          c1 = (if snd g \<noteq> [] then c0\<lparr>combc := snd g\<rparr> else c0);
          c2 = c1\<lparr>width := w, style := curStyle \<sigma>\<rparr>
      in if bsFlag \<sigma> then
           (c2\<lparr>style := overstrike E (mainc (bsContent \<sigma>)) (fst g) (curStyle \<sigma>)\<rparr>,
            \<sigma>\<lparr>bsFlag := False, bsContent := DefaultContent E\<rparr>)
         else (c2, \<sigma>))"

text \<open>What the loop body does with a cluster once the escape states are dealt with:
  the switch on the rune (escape, newline) and the switch on its width.\<close>

definition emitCell :: "'s env \<Rightarrow> int \<Rightarrow> 's pstate \<Rightarrow> rune \<times> rune list \<Rightarrow> 's pstate option" where
  "emitCell E tabWidth \<sigma> g =
     (let runeValue = fst g
      in if runeValue = 0x1b then Some (\<sigma>\<lparr>state := ansiEscape\<rparr>)
         else if runeValue = 0x0a then Some \<sigma>
         else if RuneWidth E runeValue = 0 then
           (if runeValue = 9 then Some (emitTab E tabWidth \<sigma>)
            else if runeValue = 8 then backSpace E \<sigma>
            else attachMark E runeValue \<sigma>)
         else if RuneWidth E runeValue = 1 then
           (let (c, \<sigma>1) = newContent E g 1 \<sigma>
            in Some (\<sigma>1\<lparr>lc := lc \<sigma>1 @ [c], tabX := tabX \<sigma>1 + 1\<rparr>))
         else if RuneWidth E runeValue = 2 then
           (let (c, \<sigma>1) = newContent E g 2 \<sigma>
            in Some (\<sigma>1\<lparr>lc := lc \<sigma>1 @ [c, DefaultContent E], tabX := tabX \<sigma>1 + 2\<rparr>))
         else Some \<sigma>)"

text \<open>One iteration of the loop over the grapheme clusters. In the escape state an
  unknown rune sets the state back to text and is then handled as text.\<close>

definition parseStep :: "'s env \<Rightarrow> int \<Rightarrow> 's pstate \<Rightarrow> rune \<times> rune list \<Rightarrow> 's pstate option" where
  "parseStep E tabWidth \<sigma> g =
     (let runeValue = fst g
      in case state \<sigma> of
           ansiEscape \<Rightarrow>
             (if runeValue = 0x5b then Some (\<sigma>\<lparr>csiParameter := [], state := ansiControlSequence\<rparr>)
              else if runeValue = 0x63 then Some (\<sigma>\<lparr>curStyle := StyleDefault E, state := ansiText\<rparr>)
              else if runeValue \<in> set [0x50, 0x5d, 0x58, 0x5e, 0x5f] then Some (\<sigma>\<lparr>state := ansiSubstring\<rparr>)
              else emitCell E tabWidth (\<sigma>\<lparr>state := ansiText\<rparr>) g)
         | ansiSubstring \<Rightarrow>
             Some (if runeValue = 0x1b then \<sigma>\<lparr>state := ansiControlSequence\<rparr> else \<sigma>)
         | ansiControlSequence \<Rightarrow>
             (if runeValue = 0x6d then
                (let (sty, cch) = csToStyle E (csiCache \<sigma>) (curStyle \<sigma>) (csiParameter \<sigma>)
                 in Some (\<sigma>\<lparr>curStyle := sty, csiCache := cch, state := ansiText\<rparr>))
              else if 0x41 \<le> runeValue \<and> runeValue \<le> 0x54 then Some (\<sigma>\<lparr>state := ansiText\<rparr>)
              else if 0x30 \<le> runeValue \<and> runeValue \<le> 0x3f then
                Some (\<sigma>\<lparr>csiParameter := csiParameter \<sigma> @ encodeRune runeValue\<rparr>)
              else Some (\<sigma>\<lparr>state := ansiText\<rparr>))
         | ansiText \<Rightarrow> emitCell E tabWidth \<sigma> g)"

fun parseLoop :: "'s env \<Rightarrow> int \<Rightarrow> 's pstate \<Rightarrow> (rune \<times> rune list) list \<Rightarrow> 's pstate option" where
  "parseLoop E tabWidth \<sigma> [] = Some \<sigma>"
| "parseLoop E tabWidth \<sigma> (g # gs) =
     (case parseStep E tabWidth \<sigma> g of
        None \<Rightarrow> None
      | Some \<sigma>' \<Rightarrow> parseLoop E tabWidth \<sigma>' gs)"

text \<open>\<^verbatim>\<open>parseString\<close> converts a string to \<^verbatim>\<open>lineContents\<close>. The result is the contents
  and the \<^verbatim>\<open>csiCache\<close> it leaves behind, or \<open>None\<close> for a panic.\<close>

definition parseString ::
    "'s env \<Rightarrow> csiCacheT \<Rightarrow> string \<Rightarrow> int \<Rightarrow> ('s lineContents \<times> csiCacheT) option" where
  "parseString E cch str tabWidth =
     (case parseLoop E tabWidth (initState E cch) (Graphemes E str) of
        None \<Rightarrow> None
      | Some \<sigma> \<Rightarrow> Some (lc \<sigma>, csiCache \<sigma>))"

text \<open>\<^verbatim>\<open>StrToContents\<close> converts a single-line string into one line of contents.\<close>

definition StrToContents ::
    "'s env \<Rightarrow> csiCacheT \<Rightarrow> string \<Rightarrow> int \<Rightarrow> ('s lineContents \<times> csiCacheT) option" where
  "StrToContents E cch str tabWidth = parseString E cch str tabWidth"



section \<open>The line buffer model\<close>

text \<open>The fields of \<^verbatim>\<open>Model\<close> that the functions below read or write. The screen
  position and size fields play no part in them, and the mutex has no content in a
  sequential model. The \<^verbatim>\<open>ristretto\<close> cache is a map from keys to stored values.\<close>

record 's Model =
  FileName :: string
  buffer :: "string list"
  endNum :: int
  eof :: bool
  cache :: "int \<rightharpoonup> 's cacheValue"

text \<open>Modelled from the spec: the declarations of \<^verbatim>\<open>ErrOutOfRange\<close> and \<^verbatim>\<open>ErrFatalCache\<close>
  are not among the sources. The spec names them as two error kinds, the fatal-cache
  error being distinct from the out-of-range error.\<close>

datatype error = ErrOutOfRange | ErrFatalCache

text \<open>\<^verbatim>\<open>GetLine\<close> returns one line from the buffer.\<close>

definition GetLine :: "'s Model \<Rightarrow> int \<Rightarrow> string" where
  "GetLine m lineNum =
     (if lineNum < 0 \<or> lineNum \<ge> int (length (buffer m)) then [] else buffer m ! nat lineNum)"

text \<open>\<^verbatim>\<open>BufEndNum\<close> returns the last line number.\<close>

definition BufEndNum :: "'s Model \<Rightarrow> int" where
  "BufEndNum m = endNum m"

text \<open>\<^verbatim>\<open>BufEOF\<close> returns true if EOF is reached.\<close>

definition BufEOF :: "'s Model \<Rightarrow> bool" where
  "BufEOF m = eof m"

text \<open>\<^verbatim>\<open>lineToContents\<close> returns contents from the line number: the error or the
  contents, together with the model and the \<^verbatim>\<open>csiCache\<close> afterwards. \<open>None\<close> is a panic
  inside \<^verbatim>\<open>parseString\<close>.\<close>

definition lineToContents ::
    "'s env \<Rightarrow> csiCacheT \<Rightarrow> 's Model \<Rightarrow> int \<Rightarrow> int
       \<Rightarrow> ((error + 's lineContents) \<times> 's Model \<times> csiCacheT) option" where
  "lineToContents E cch m lineNum tabWidth =
     (if lineNum < 0 \<or> lineNum \<ge> BufEndNum m then Some (Inl ErrOutOfRange, m, cch)
      else
        (case cache m lineNum of
           Some v \<Rightarrow>
             (case v of
                LineContentsValue cells \<Rightarrow> Some (Inr cells, m, cch)
              | OtherValue \<Rightarrow> Some (Inl ErrFatalCache, m, cch))
         | None \<Rightarrow>
             (case parseString E cch (GetLine m lineNum) tabWidth of
                None \<Rightarrow> None
              | Some (cells, cch') \<Rightarrow>
                  Some (Inr cells,
                        m\<lparr>cache := cacheSet E (cache m) lineNum (LineContentsValue cells) 1\<rparr>,
                        cch'))))"

section \<open>A sample environment\<close>

text \<open>A concrete environment on which the definitions can be run. It agrees with the
  libraries on the inputs used below: every code point of up to three bytes is a cluster
  of its own; control characters and the combining diacritical marks have width 0,
  Hiragana has width 2 and the other code points have width 1; a style is an attribute
  record, with bold for overstrike and underline for overline.\<close>

fun sampleGraphemes :: "string \<Rightarrow> (rune \<times> rune list) list" where
  "sampleGraphemes [] = []"
| "sampleGraphemes [c] = [(of_char c, [])]"
| "sampleGraphemes [c, d] =
     (if (of_char c :: int) \<ge> 0xC0 then [((of_char c - 0xC0) * 64 + (of_char d - 0x80), [])]
      else (of_char c, []) # sampleGraphemes [d])"
| "sampleGraphemes (c # d # e # cs) =
     (if (of_char c :: int) \<ge> 0xE0 then
        ((of_char c - 0xE0) * 4096 + (of_char d - 0x80) * 64 + (of_char e - 0x80), [])
          # sampleGraphemes cs
      else if (of_char c :: int) \<ge> 0xC0 then
        ((of_char c - 0xC0) * 64 + (of_char d - 0x80), []) # sampleGraphemes (e # cs)
      else (of_char c, []) # sampleGraphemes (d # e # cs))"

definition sampleRuneWidth :: "rune \<Rightarrow> int" where
  "sampleRuneWidth r =
     (if r < 0x20 \<or> (0x7f \<le> r \<and> r < 0xa0) \<or> (0x300 \<le> r \<and> r \<le> 0x36f) then 0
      else if 0x3041 \<le> r \<and> r \<le> 0x3096 then 2
      else 1)"

definition sampleApplyStyle :: "ovStyle \<Rightarrow> ovStyle \<Rightarrow> ovStyle" where
  "sampleApplyStyle sty s =
     \<lparr>Bold = (Bold sty \<or> Bold s), Dim = (Dim sty \<or> Dim s), Italic = (Italic sty \<or> Italic s),
      Underline = (Underline sty \<or> Underline s), Blink = (Blink sty \<or> Blink s),
      Reverse = (Reverse sty \<or> Reverse s), StrikeThrough = (StrikeThrough sty \<or> StrikeThrough s),
      Foreground = (if Foreground s \<noteq> [] then Foreground s else Foreground sty),
      Background = (if Background s \<noteq> [] then Background s else Background sty)\<rparr>"

definition sampleEnv :: "ovStyle env" where
  "sampleEnv =
     \<lparr>Graphemes = sampleGraphemes,
      RuneWidth = sampleRuneWidth,
      StyleDefault = ovStyle_zero,
      StyleNormal = (\<lambda>sty. ovStyle_zero\<lparr>Foreground := Foreground sty, Background := Background sty\<rparr>),
      StyleReverse = (\<lambda>sty on. sty\<lparr>Reverse := on\<rparr>),
      applyStyle = sampleApplyStyle,
      OverStrikeStyle = ovStyle_zero\<lparr>Bold := True\<rparr>,
      OverLineStyle = ovStyle_zero\<lparr>Underline := True\<rparr>,
      cacheSet = (\<lambda>m k v cost. m(k \<mapsto> v))\<rparr>"

text \<open>A sample model: two lines, of which line 0 has a cache entry of a foreign type
  and line 1 has none.\<close>

definition sampleModel :: "ovStyle Model" where
  "sampleModel =
     \<lparr>FileName = ''sample'', buffer = [''ab'', ''A'' @ [CHR 0x08] @ ''A''], endNum = 2,
      eof = True, cache = [0 \<mapsto> OtherValue]\<rparr>"

text \<open>The state of \<^verbatim>\<open>csiCache\<close> that the program can reach: it starts empty and
  \<^verbatim>\<open>csToStyle\<close>, the only function that stores into it, stores under a parameter string
  what \<^verbatim>\<open>parseCSI\<close> returns for it.\<close>

definition csiCache_ok :: "csiCacheT \<Rightarrow> bool" where
  "csiCache_ok cch = (\<forall>p s. cch p = Some s \<longrightarrow> s = parseCSI p)"

section \<open>The shape of a line of contents\<close>

text \<open>The contents that the parser builds consist of blocks: a cell of width 1, or a
  cell of width 2 followed by the blank \<^verbatim>\<open>DefaultContent\<close>.\<close>

inductive blocks :: "'s env \<Rightarrow> 's lineContents \<Rightarrow> bool" for E :: "'s env" where
  blocks_Nil: "blocks E []"
| blocks_single: "blocks E cs \<Longrightarrow> width c = 1 \<Longrightarrow> blocks E (cs @ [c])"
| blocks_wide: "blocks E cs \<Longrightarrow> width c = 2 \<Longrightarrow> blocks E (cs @ [c, DefaultContent E])"

section \<open>Notions for the plain text round trip\<close>











text \<open>Contents in which every character has the width of its rune and is not NUL, and
  every tab cell is followed by the padding that reaches the next multiple of the tab
  width in cells.\<close>

inductive paddedBlocks :: "'s env \<Rightarrow> int \<Rightarrow> 's lineContents \<Rightarrow> bool"
  for E :: "'s env" and w :: int where
  pb_Nil: "paddedBlocks E w []"
| pb_cell: "paddedBlocks E w cs \<Longrightarrow> width c = 1 \<Longrightarrow> RuneWidth E (mainc c) = 1 \<Longrightarrow>
            mainc c \<noteq> 0 \<Longrightarrow> paddedBlocks E w (cs @ [c])"
| pb_wide: "paddedBlocks E w cs \<Longrightarrow> width c = 2 \<Longrightarrow> RuneWidth E (mainc c) = 2 \<Longrightarrow>
            mainc c \<noteq> 0 \<Longrightarrow> paddedBlocks E w (cs @ [c, DefaultContent E])"
| pb_tab: "paddedBlocks E w cs \<Longrightarrow> w > 0 \<Longrightarrow> RuneWidth E 9 = 0 \<Longrightarrow> width c = 1 \<Longrightarrow>
           mainc c = 9 \<Longrightarrow> width p = 1 \<Longrightarrow> mainc p = 0 \<Longrightarrow> combc p = [] \<Longrightarrow>
           paddedBlocks E w (cs @ c # replicate (nat (w - 1 - int (length cs) mod w)) p)"



section \<open>Auxiliary lemmas\<close>

declare parseCSI_fields.simps(2) [simp del]

subsection \<open>Splitting and the token loop\<close>

lemma Split_not_Nil: "Split p sep \<noteq> []"
  by (induction p) (auto split: list.splits)

lemma Split_append: "Split (p @ sep # q) sep = Split p sep @ Split q sep"
proof (induction p)
  case Nil
  show ?case by simp
next
  case (Cons c p)
  obtain f fs where s: "Split p sep = f # fs" using Split_not_Nil[of p sep] by (cases "Split p sep") auto
  show ?case using Cons s by simp
qed

lemma parseCSI_fields_clear:
  assumes "tok \<in> set [''22'', ''24'', ''25'', ''27'']"
  shows "parseCSI_fields st (tok # rest) = parseCSI_fields ovStyle_zero rest"
proof -
  from assms consider "tok = ''22''" | "tok = ''24''" | "tok = ''25''" | "tok = ''27''" by auto
  then show ?thesis
    by cases (simp_all add: parseCSI_fields.simps(2)[of st])
qed

lemma parseCSI_fields_single:
  assumes "f \<noteq> ''38''" "f \<noteq> ''48''"
  shows "parseCSI_fields st (f # rest) = parseCSI_fields (parseCSI_fields st [f]) rest"
  by (simp only: parseCSI_fields.simps if_distrib[of "\<lambda>s. parseCSI_fields s rest"]
        assms simp_thms if_False)

lemma parseCSI_fields_append:
  "\<forall>f \<in> set pre. f \<noteq> ''38'' \<and> f \<noteq> ''48'' \<Longrightarrow>
     parseCSI_fields st (pre @ rest) = parseCSI_fields (parseCSI_fields st pre) rest"
proof (induction pre arbitrary: st)
  case Nil
  show ?case by simp
next
  case (Cons f pre)
  have f: "f \<noteq> ''38''" "f \<noteq> ''48''" using Cons.prems by auto
  have "parseCSI_fields st ((f # pre) @ rest) = parseCSI_fields (parseCSI_fields st [f]) (pre @ rest)"
    unfolding append_Cons by (rule parseCSI_fields_single[OF f])
  also have "\<dots> = parseCSI_fields (parseCSI_fields (parseCSI_fields st [f]) pre) rest"
    using Cons by simp
  also have "\<dots> = parseCSI_fields (parseCSI_fields st (f # pre)) rest"
    by (simp only: parseCSI_fields_single[OF f, of st pre])
  finally show ?case .
qed

lemma Split_token:
  "tok \<in> set [''22'', ''24'', ''25'', ''27''] \<Longrightarrow> Split tok (CHR '';'') = [tok]"
  by (auto split: list.splits simp: Split_not_Nil)

subsection \<open>The block shape is kept by every step of the parser\<close>

lemma blocks_last_width: "blocks E cs \<Longrightarrow> cs \<noteq> [] \<Longrightarrow> width (last cs) \<le> 1"
  by (induction rule: blocks.induct) (auto simp: DefaultContent_def)

lemma lastContent_single:
  assumes "blocks E cs" "width c = 1"
  shows "lastContent E (cs @ [c]) = c"
proof (cases "cs = []")
  case True
  then show ?thesis by (simp add: lastContent_def)
next
  case False
  then have "(cs @ [c]) ! (length cs - 1) = last cs"
    by (simp add: nth_append last_conv_nth)
  moreover have "width (last cs) \<le> 1" using blocks_last_width[OF assms(1) False] .
  ultimately show ?thesis using False by (simp add: lastContent_def Let_def)
qed

lemma lastContent_wide:
  assumes "width c = 2"
  shows "lastContent E (cs @ [c, d]) = c"
  using assms by (simp add: lastContent_def Let_def nth_append)

lemma blocks_split:
  assumes "blocks E cs" "cs \<noteq> []"
  obtains (single) cs' c where "cs = cs' @ [c]" "width c = 1" "blocks E cs'"
        | (wide) cs' c where "cs = cs' @ [c, DefaultContent E]" "width c = 2" "blocks E cs'"
  using assms by (cases rule: blocks.cases) auto

lemma blocks_replicate:
  assumes "blocks E cs" "width c = 1"
  shows "blocks E (cs @ replicate k c)"
proof (induction k)
  case 0
  show ?case using assms by simp
next
  case (Suc k)
  have "cs @ replicate (Suc k) c = (cs @ replicate k c) @ [c]"
    by (simp add: replicate_append_same)
  then show ?case using blocks_single[OF Suc assms(2)] by simp
qed

lemma emitTab_blocks:
  assumes "blocks E (lc \<sigma>)"
  shows "blocks E (lc (emitTab E w \<sigma>))"
proof -
  consider (pos) "w > 0" | (neg) "w < 0" | (zero) "w = 0" by linarith
  then show ?thesis
  proof cases
    case pos
    let ?c = "(DefaultContent E)\<lparr>width := 1, style := curStyle \<sigma>, mainc := 9\<rparr>"
    have "blocks E (lc \<sigma> @ [?c])" by (rule blocks_single[OF assms]) simp
    then have "blocks E ((lc \<sigma> @ [?c]) @ replicate (nat (w - tabX \<sigma> smod w - 1)) (?c\<lparr>mainc := 0\<rparr>))"
      by (rule blocks_replicate) simp
    then show ?thesis using pos by (simp add: emitTab_def Let_def)
  next
    case neg
    let ?c = "(DefaultContent E)\<lparr>width := 1, style := StyleReverse E (curStyle \<sigma>) True, mainc := 0x5c\<rparr>"
    have "blocks E (lc \<sigma> @ [?c])" by (rule blocks_single[OF assms]) simp
    then have "blocks E ((lc \<sigma> @ [?c]) @ [?c\<lparr>mainc := 0x74\<rparr>])"
      by (rule blocks_single) simp
    then show ?thesis using neg by (simp add: emitTab_def Let_def)
  next
    case zero
    then show ?thesis using assms by (simp add: emitTab_def)
  qed
qed

lemma backSpace_blocks:
  assumes "blocks E (lc \<sigma>)"
  shows "\<exists>\<sigma>'. backSpace E \<sigma> = Some \<sigma>' \<and> blocks E (lc \<sigma>')"
proof (cases "lc \<sigma> = []")
  case True
  then show ?thesis using assms by (simp add: backSpace_def)
next
  case False
  from assms False show ?thesis
  proof (cases rule: blocks_split)
    case (single cs' c)
    then show ?thesis
      by (simp add: backSpace_def Let_def lastContent_single)
  next
    case (wide cs' c)
    then show ?thesis
      by (simp add: backSpace_def Let_def lastContent_wide)
  qed
qed

lemma attachMark_blocks:
  assumes "blocks E (lc \<sigma>)"
  shows "\<exists>\<sigma>'. attachMark E r \<sigma> = Some \<sigma>' \<and> blocks E (lc \<sigma>')"
proof (cases "lc \<sigma> = []")
  case True
  then show ?thesis using assms by (simp add: attachMark_def Let_def)
next
  case False
  from assms False show ?thesis
  proof (cases rule: blocks_split)
    case (single cs' c)
    then show ?thesis
      by (simp add: attachMark_def Let_def lastContent_single blocks_single)
  next
    case (wide cs' c)
    have "(cs' @ [c, DefaultContent E])[length cs' := c\<lparr>combc := combc c @ [r]\<rparr>]
            = cs' @ [c\<lparr>combc := combc c @ [r]\<rparr>, DefaultContent E]"
      by (simp add: list_update_append)
    moreover have "blocks E (cs' @ [c\<lparr>combc := combc c @ [r]\<rparr>, DefaultContent E])"
      using wide by (intro blocks_wide) simp_all
    ultimately show ?thesis using wide
      by (simp add: attachMark_def Let_def lastContent_wide)
  qed
qed

lemma newContent_lc:
  "lc (snd (newContent E g w \<sigma>)) = lc \<sigma>" "width (fst (newContent E g w \<sigma>)) = w"
  by (simp_all add: newContent_def Let_def)

lemma emitCell_blocks:
  assumes "blocks E (lc \<sigma>)"
  shows "\<exists>\<sigma>'. emitCell E w \<sigma> g = Some \<sigma>' \<and> blocks E (lc \<sigma>')"
proof -
  have n1: "blocks E (lc (snd (newContent E g 1 \<sigma>)) @ [fst (newContent E g 1 \<sigma>)])"
    using assms by (simp add: newContent_lc blocks_single)
  have n2: "blocks E (lc (snd (newContent E g 2 \<sigma>)) @ [fst (newContent E g 2 \<sigma>), DefaultContent E])"
    using assms by (simp add: newContent_lc blocks_wide)
  show ?thesis
    using assms n1 n2 emitTab_blocks[OF assms, of w] backSpace_blocks[OF assms]
      attachMark_blocks[OF assms, of "fst g"]
    by (simp add: emitCell_def Let_def split_beta)
qed

lemma parseStep_blocks:
  assumes "blocks E (lc \<sigma>)"
  shows "\<exists>\<sigma>'. parseStep E w \<sigma> g = Some \<sigma>' \<and> blocks E (lc \<sigma>')"
proof -
  have "blocks E (lc (\<sigma>\<lparr>state := ansiText\<rparr>))" using assms by simp
  from emitCell_blocks[OF this, of w g] emitCell_blocks[OF assms, of w g] assms
  show ?thesis
    by (simp add: parseStep_def Let_def split_beta split: ansiState.split)
qed

lemma parseLoop_blocks:
  "blocks E (lc \<sigma>) \<Longrightarrow> \<exists>\<sigma>'. parseLoop E w \<sigma> gs = Some \<sigma>' \<and> blocks E (lc \<sigma>')"
proof (induction gs arbitrary: \<sigma>)
  case Nil
  then show ?case by simp
next
  case (Cons g gs)
  from parseStep_blocks[OF Cons.prems, of w g]
  obtain \<sigma>1 where s: "parseStep E w \<sigma> g = Some \<sigma>1" "blocks E (lc \<sigma>1)" by blast
  from Cons.IH[OF s(2)] s(1) show ?case by simp
qed

lemma parseString_blocks:
  "\<exists>cells cch'. parseString E cch str w = Some (cells, cch') \<and> blocks E cells"
proof -
  have "blocks E (lc (initState E cch))" by (simp add: initState_def blocks_Nil)
  from parseLoop_blocks[OF this, of w "Graphemes E str"]
  show ?thesis by (auto simp: parseString_def)
qed

lemma blocks_wide_followed:
  "blocks E cs \<Longrightarrow> i < length cs \<Longrightarrow> width (cs ! i) = 2
     \<Longrightarrow> Suc i < length cs \<and> cs ! Suc i = DefaultContent E"
proof (induction arbitrary: i rule: blocks.induct)
  case blocks_Nil
  then show ?case by simp
next
  case (blocks_single cs c)
  then show ?case by (cases "i < length cs") (auto simp: nth_append)
next
  case (blocks_wide cs c)
  consider "i < length cs" | "i = length cs" | "i = Suc (length cs)"
    using blocks_wide.prems(1) by force
  then show ?case
  proof cases
    case 1
    then show ?thesis using blocks_wide by (auto simp: nth_append)
  next
    case 2
    then show ?thesis by (simp add: nth_append)
  next
    case 3
    then show ?thesis using blocks_wide.prems(2) by (simp add: nth_append DefaultContent_def)
  qed
qed

subsection \<open>Running the parser on the sample environment\<close>

lemmas parse_defs = parseString_def initState_def parseStep_def emitCell_def
  newContent_def attachMark_def backSpace_def emitTab_def lastContent_def DefaultContent_def
  content_zero_def overstrike_def Let_def

lemmas sample_defs = sampleEnv_def sampleRuneWidth_def

lemma sample_parse_wide:
  "parseString sampleEnv Map.empty [CHR 0xE3, CHR 0x81, CHR 0x82] w
     = Some ([\<lparr>width = 2, mainc = 0x3042, combc = [], style = ovStyle_zero\<rparr>,
              \<lparr>width = 0, mainc = 0, combc = [], style = ovStyle_zero\<rparr>], Map.empty)"
  by (simp add: parse_defs sample_defs)

lemma blocks_widths:
  "blocks E cs \<Longrightarrow> i < length cs \<Longrightarrow>
     width (cs ! i) = 1 \<or> width (cs ! i) = 2 \<or>
     (0 < i \<and> width (cs ! (i - 1)) = 2 \<and> cs ! i = DefaultContent E)"
proof (induction arbitrary: i rule: blocks.induct)
  case blocks_Nil
  then show ?case by simp
next
  case (blocks_single cs c)
  then show ?case by (cases "i < length cs") (auto simp: nth_append)
next
  case (blocks_wide cs c)
  consider "i < length cs" | "i = length cs" | "i = Suc (length cs)"
    using blocks_wide.prems(1) by force
  then show ?case
  proof cases
    case 1
    then show ?thesis using blocks_wide.IH[of i] by (auto simp: nth_append)
  next
    case 2
    then show ?thesis using blocks_wide.hyps by (simp add: nth_append)
  next
    case 3
    then show ?thesis using blocks_wide.hyps by (simp add: nth_append)
  qed
qed

lemma sample_parse_overstrike:
  "parseString sampleEnv Map.empty (''A'' @ [CHR 0x08] @ ''A'') w =
     Some ([\<lparr>width = 1, mainc = 0x41, combc = [], style = ovStyle_zero\<lparr>Bold := True\<rparr>\<rparr>], Map.empty)"
  by (simp add: parse_defs sample_defs)

subsection \<open>Single steps: backspace and tab\<close>

lemma blocks_snoc_single:
  assumes "blocks E (cs @ [c])" "width c = 1"
  shows "blocks E cs"
  using assms by (cases rule: blocks.cases) (auto simp: DefaultContent_def)

lemma backSpace_single:
  assumes "blocks E (lc \<sigma>)" "lc \<sigma> = cs @ [c]" "width c = 1"
  shows "backSpace E \<sigma> =
           Some (\<sigma>\<lparr>bsFlag := True, bsContent := c,
                    b := b \<sigma> - (1 + int (length (encodeRune (mainc c)))), lc := cs\<rparr>)"
proof -
  have "blocks E cs" using blocks_snoc_single assms by metis
  then have "lastContent E (cs @ [c]) = c" using assms(3) by (rule lastContent_single)
  then show ?thesis using assms(2,3) by (simp add: backSpace_def Let_def)
qed

lemma backSpace_wide:
  assumes "lc \<sigma> = cs @ [c, d]" "width c = 2"
  shows "backSpace E \<sigma> =
           Some (\<sigma>\<lparr>bsFlag := True, bsContent := c,
                    b := b \<sigma> - (1 + int (length (encodeRune (mainc c)))), lc := cs\<rparr>)"
  using assms by (simp add: backSpace_def Let_def lastContent_wide)

lemma parseStep_text_backspace:
  assumes "RuneWidth E 8 = 0" "state \<sigma> = ansiText"
  shows "parseStep E w \<sigma> (8, rs) = backSpace E \<sigma>"
  using assms by (simp add: parseStep_def emitCell_def)

lemma smod_nonneg:
  "0 \<le> a \<Longrightarrow> 0 < w \<Longrightarrow> a smod w = a mod (w :: int)"
  by (cases "a = 0") (simp_all add: smod_int_alt_def)

text \<open>The column counter starts at 0 and no step decreases it.\<close>

lemma emitCell_tabX_mono:
  assumes "emitCell E w \<sigma> g = Some \<sigma>'"
  shows "tabX \<sigma> \<le> tabX \<sigma>'"
  using assms
  by (auto simp: emitCell_def emitTab_def backSpace_def attachMark_def newContent_def Let_def
        split: if_splits)

lemma parseStep_tabX_mono:
  assumes "parseStep E w \<sigma> g = Some \<sigma>'"
  shows "tabX \<sigma> \<le> tabX \<sigma>'"
proof (cases "state \<sigma>")
  case ansiText
  then show ?thesis using assms emitCell_tabX_mono[of E w \<sigma> g \<sigma>'] by (simp add: parseStep_def)
next
  case ansiEscape
  then show ?thesis
    using assms emitCell_tabX_mono[of E w "\<sigma>\<lparr>state := ansiText\<rparr>" g \<sigma>']
    by (auto simp: parseStep_def Let_def split: if_splits)
next
  case ansiSubstring
  then show ?thesis using assms by (auto simp: parseStep_def Let_def split: if_splits)
next
  case ansiControlSequence
  then show ?thesis using assms by (auto simp: parseStep_def Let_def split_beta split: if_splits)
qed

lemma parseLoop_tabX_nonneg:
  "parseLoop E w \<sigma> gs = Some \<sigma>' \<Longrightarrow> 0 \<le> tabX \<sigma> \<Longrightarrow> 0 \<le> tabX \<sigma>'"
proof (induction gs arbitrary: \<sigma>)
  case Nil
  then show ?case by simp
next
  case (Cons g gs)
  then obtain \<sigma>1 where s: "parseStep E w \<sigma> g = Some \<sigma>1" "parseLoop E w \<sigma>1 gs = Some \<sigma>'"
    by (auto split: option.splits)
  have "0 \<le> tabX \<sigma>1" using parseStep_tabX_mono[OF s(1)] Cons.prems(2) by simp
  then show ?case using Cons.IH[OF s(2)] by simp
qed

text \<open>Every branch that appends cells advances the column counter by their number.
  The backspace branch removes cells and leaves the counter as it is.\<close>

lemma emitCell_counter_in_step:
  assumes "emitCell E w \<sigma> g = Some \<sigma>'"
      and "fst g = 8 \<and> RuneWidth E 8 = 0 \<longrightarrow> lc \<sigma> = []"
  shows "tabX \<sigma>' - int (length (lc \<sigma>')) = tabX \<sigma> - int (length (lc \<sigma>))"
proof -
  let ?r = "fst g"
  consider (esc) "?r = 0x1b" | (nl) "?r \<noteq> 0x1b" "?r = 0x0a"
    | (tab) "?r \<noteq> 0x1b" "?r \<noteq> 0x0a" "RuneWidth E ?r = 0" "?r = 9"
    | (bs) "?r \<noteq> 0x1b" "?r \<noteq> 0x0a" "RuneWidth E ?r = 0" "?r = 8"
    | (mark) "?r \<noteq> 0x1b" "?r \<noteq> 0x0a" "RuneWidth E ?r = 0" "?r \<noteq> 9" "?r \<noteq> 8"
    | (one) "?r \<noteq> 0x1b" "?r \<noteq> 0x0a" "RuneWidth E ?r = 1"
    | (two) "?r \<noteq> 0x1b" "?r \<noteq> 0x0a" "RuneWidth E ?r = 2"
    | (other) "?r \<noteq> 0x1b" "?r \<noteq> 0x0a" "RuneWidth E ?r \<noteq> 0" "RuneWidth E ?r \<noteq> 1"
        "RuneWidth E ?r \<noteq> 2"
    by fastforce
  then show ?thesis
  proof cases
    case esc
    then show ?thesis using assms(1) by (auto simp: emitCell_def)
  next
    case nl
    then show ?thesis using assms(1) by (auto simp: emitCell_def)
  next
    case tab
    then have "\<sigma>' = emitTab E w \<sigma>" using assms(1) by (simp add: emitCell_def)
    then show ?thesis by (simp add: emitTab_def Let_def)
  next
    case bs
    then have "lc \<sigma> = []" using assms(2) by simp
    then show ?thesis using bs assms(1) by (auto simp: emitCell_def backSpace_def)
  next
    case mark
    then have "attachMark E ?r \<sigma> = Some \<sigma>'" using assms(1) by (simp add: emitCell_def)
    then show ?thesis by (auto simp: attachMark_def Let_def split: if_splits)
  next
    case one
    then show ?thesis using assms(1)
      by (auto simp: emitCell_def newContent_def Let_def split: if_splits)
  next
    case two
    then show ?thesis using assms(1)
      by (auto simp: emitCell_def newContent_def Let_def split: if_splits)
  next
    case other
    then show ?thesis using assms(1) by (auto simp: emitCell_def)
  qed
qed

lemma parseStep_counter_in_step:
  assumes "parseStep E w \<sigma> g = Some \<sigma>'"
      and "fst g = 8 \<and> RuneWidth E 8 = 0 \<longrightarrow> lc \<sigma> = []"
  shows "tabX \<sigma>' - int (length (lc \<sigma>')) = tabX \<sigma> - int (length (lc \<sigma>))"
proof (cases "state \<sigma>")
  case ansiText
  then show ?thesis
    using assms emitCell_counter_in_step[of E w \<sigma> g \<sigma>'] by (simp add: parseStep_def)
next
  case ansiEscape
  then show ?thesis
    using assms emitCell_counter_in_step[of E w "\<sigma>\<lparr>state := ansiText\<rparr>" g \<sigma>']
    by (auto simp: parseStep_def Let_def split: if_splits)
next
  case ansiSubstring
  then show ?thesis using assms by (auto simp: parseStep_def Let_def split: if_splits)
next
  case ansiControlSequence
  then show ?thesis using assms by (auto simp: parseStep_def Let_def split_beta split: if_splits)
qed

lemma backSpace_counter_ahead:
  assumes "backSpace E \<sigma> = Some \<sigma>'" "lc \<sigma> \<noteq> []"
  shows "tabX \<sigma>' = tabX \<sigma> \<and> length (lc \<sigma>') < length (lc \<sigma>)"
  using assms by (auto simp: backSpace_def Let_def split: if_splits)

lemma parseLoop_counter_in_step:
  assumes "parseLoop E w \<sigma> gs = Some \<sigma>'" "\<forall>g\<in>set gs. fst g \<noteq> 8"
      and "tabX \<sigma> = int (length (lc \<sigma>))"
  shows "tabX \<sigma>' = int (length (lc \<sigma>'))"
  using assms
proof (induction gs arbitrary: \<sigma>)
  case Nil
  then show ?case by simp
next
  case (Cons g gs)
  from Cons.prems(1) obtain \<sigma>1 where s: "parseStep E w \<sigma> g = Some \<sigma>1"
      "parseLoop E w \<sigma>1 gs = Some \<sigma>'"
    by (auto split: option.splits)
  have nb: "fst g = 8 \<and> RuneWidth E 8 = 0 \<longrightarrow> lc \<sigma> = []" using Cons.prems(2) by simp
  have x: "tabX \<sigma>1 = int (length (lc \<sigma>1))"
    using parseStep_counter_in_step[OF s(1) nb] Cons.prems(3) by simp
  have a: "\<forall>g\<in>set gs. fst g \<noteq> 8" using Cons.prems(2) by simp
  from Cons.IH[OF s(2) a x] show ?case .
qed

text \<open>With the counter in step, a tab fills up to the next tab stop.\<close>

lemma tab_reaches_stop:
  assumes "RuneWidth E 9 = 0" "state \<sigma> = ansiText" "0 < w"
      and "tabX \<sigma> = int (length (lc \<sigma>))"
      and "parseStep E w \<sigma> (9, rs) = Some \<sigma>'"
  shows "int (length (lc \<sigma>')) mod w = 0 \<and> length (lc \<sigma>) < length (lc \<sigma>') \<and>
         int (length (lc \<sigma>')) \<le> int (length (lc \<sigma>)) + w"
proof -
  let ?n = "int (length (lc \<sigma>))"
  have s: "\<sigma>' = emitTab E w \<sigma>"
    using assms(1,2,5) by (simp add: parseStep_def emitCell_def)
  have m: "tabX \<sigma> smod w = ?n mod w" using assms(3,4) by (simp add: smod_nonneg)
  have lt: "?n mod w < w" "0 \<le> ?n mod w" using assms(3) by simp_all
  have len: "int (length (lc \<sigma>')) = ?n + (w - ?n mod w)"
    unfolding s using assms(3) lt by (simp add: emitTab_def Let_def m)
  have "(?n + (w - ?n mod w)) mod w = (w + (?n - ?n mod w)) mod w" by (simp add: algebra_simps)
  also have "\<dots> = (?n - ?n mod w) mod w" by simp
  also have "\<dots> = 0" by (simp add: minus_mod_eq_mult_div)
  finally have z: "int (length (lc \<sigma>')) mod w = 0" unfolding len .
  have "?n < int (length (lc \<sigma>'))" unfolding len using lt by simp
  then have g: "length (lc \<sigma>) < length (lc \<sigma>')" by simp
  have "int (length (lc \<sigma>')) \<le> ?n + w" unfolding len using lt by simp
  then show ?thesis using z g by simp
qed

subsection \<open>The parser does not depend on what the style cache holds\<close>

lemma csiCache_ok_empty: "csiCache_ok Map.empty"
  by (simp add: csiCache_ok_def)

lemma csToStyle_ok:
  assumes "csiCache_ok cch"
  shows "fst (csToStyle E cch sty p) =
           (if p = ''0'' \<or> p = [] \<or> p = '';'' then StyleNormal E (StyleDefault E)
            else applyStyle E sty (parseCSI p))"
    and "csiCache_ok (snd (csToStyle E cch sty p))"
  using assms by (auto simp: csToStyle_def csiCache_ok_def Let_def split: option.splits)

lemma csToStyle_fst_indep:
  assumes "csiCache_ok c1" "csiCache_ok c2"
  shows "fst (csToStyle E c1 sty p) = fst (csToStyle E c2 sty p)"
  by (simp only: csToStyle_ok(1)[OF assms(1)] csToStyle_ok(1)[OF assms(2)])

lemma emitCell_csiCache:
  "emitCell E w (\<sigma>\<lparr>csiCache := c\<rparr>) g = map_option (\<lambda>s. s\<lparr>csiCache := c\<rparr>) (emitCell E w \<sigma> g)"
  by (simp add: emitCell_def emitTab_def backSpace_def attachMark_def newContent_def Let_def)

lemma emitCell_csiCache_text:
  "emitCell E w (\<sigma>\<lparr>csiCache := c, state := ansiText\<rparr>) g
     = map_option (\<lambda>s. s\<lparr>csiCache := c\<rparr>) (emitCell E w (\<sigma>\<lparr>state := ansiText\<rparr>) g)"
proof -
  have sw: "\<sigma>\<lparr>csiCache := c, state := ansiText\<rparr> = (\<sigma>\<lparr>state := ansiText\<rparr>)\<lparr>csiCache := c\<rparr>"
    by simp
  show ?thesis unfolding sw by (rule emitCell_csiCache)
qed

lemma parseStep_csiCache_other:
  assumes "\<not> (state \<sigma> = ansiControlSequence \<and> fst g = 0x6d)"
  shows "parseStep E w (\<sigma>\<lparr>csiCache := c\<rparr>) g
           = map_option (\<lambda>s. s\<lparr>csiCache := c\<rparr>) (parseStep E w \<sigma> g)"
proof (cases "state \<sigma>")
  case ansiText
  then show ?thesis by (simp add: parseStep_def emitCell_csiCache)
next
  case ansiEscape
  then show ?thesis by (simp add: parseStep_def Let_def emitCell_csiCache_text)
next
  case ansiSubstring
  then show ?thesis by (simp add: parseStep_def Let_def)
next
  case ansiControlSequence
  then have "fst g \<noteq> 0x6d" using assms by simp
  then show ?thesis using ansiControlSequence by (simp add: parseStep_def Let_def)
qed

lemma parseStep_csiCache_same:
  assumes "\<not> (state \<sigma> = ansiControlSequence \<and> fst g = 0x6d)" "parseStep E w \<sigma> g = Some \<sigma>'"
  shows "csiCache \<sigma>' = csiCache \<sigma>"
proof -
  have "parseStep E w (\<sigma>\<lparr>csiCache := csiCache \<sigma>\<rparr>) g
          = map_option (\<lambda>s. s\<lparr>csiCache := csiCache \<sigma>\<rparr>) (parseStep E w \<sigma> g)"
    using assms(1) by (rule parseStep_csiCache_other)
  then have "Some \<sigma>' = Some (\<sigma>'\<lparr>csiCache := csiCache \<sigma>\<rparr>)"
    using assms(2) by simp
  then have "\<sigma>' = \<sigma>'\<lparr>csiCache := csiCache \<sigma>\<rparr>" by simp
  then have "csiCache \<sigma>' = csiCache (\<sigma>'\<lparr>csiCache := csiCache \<sigma>\<rparr>)" by simp
  then show ?thesis by simp
qed

lemma parseStep_csiCache:
  assumes "csiCache_ok (csiCache \<sigma>)" "csiCache_ok c2"
  shows "(parseStep E w \<sigma> g = None \<longrightarrow> parseStep E w (\<sigma>\<lparr>csiCache := c2\<rparr>) g = None) \<and>
         (\<forall>\<sigma>'. parseStep E w \<sigma> g = Some \<sigma>' \<longrightarrow>
            csiCache_ok (csiCache \<sigma>') \<and>
            (\<exists>c2'. csiCache_ok c2' \<and>
                parseStep E w (\<sigma>\<lparr>csiCache := c2\<rparr>) g = Some (\<sigma>'\<lparr>csiCache := c2'\<rparr>)))"
proof (cases "state \<sigma> = ansiControlSequence \<and> fst g = 0x6d")
  case True
  let ?r1 = "csToStyle E (csiCache \<sigma>) (curStyle \<sigma>) (csiParameter \<sigma>)"
  let ?r2 = "csToStyle E c2 (curStyle \<sigma>) (csiParameter \<sigma>)"
  have s1: "parseStep E w \<sigma> g = Some (\<sigma>\<lparr>curStyle := fst ?r1, csiCache := snd ?r1, state := ansiText\<rparr>)"
    using True by (simp add: parseStep_def split_beta)
  have s2: "parseStep E w (\<sigma>\<lparr>csiCache := c2\<rparr>) g
              = Some (\<sigma>\<lparr>curStyle := fst ?r2, csiCache := snd ?r2, state := ansiText\<rparr>)"
    using True by (simp add: parseStep_def split_beta)
  have f: "fst ?r1 = fst ?r2" using assms by (rule csToStyle_fst_indep)
  have o1: "csiCache_ok (snd ?r1)" using assms(1) by (rule csToStyle_ok(2))
  have o2: "csiCache_ok (snd ?r2)" using assms(2) by (rule csToStyle_ok(2))
  have "\<sigma>\<lparr>curStyle := fst ?r2, csiCache := snd ?r2, state := ansiText\<rparr>
          = (\<sigma>\<lparr>curStyle := fst ?r1, csiCache := snd ?r1, state := ansiText\<rparr>)\<lparr>csiCache := snd ?r2\<rparr>"
    using f by simp
  then show ?thesis
    unfolding s1 s2 using o1 o2 by auto
next
  case False
  have p: "parseStep E w (\<sigma>\<lparr>csiCache := c2\<rparr>) g
             = map_option (\<lambda>s. s\<lparr>csiCache := c2\<rparr>) (parseStep E w \<sigma> g)"
    using False by (rule parseStep_csiCache_other)
  have q: "\<And>\<sigma>'. parseStep E w \<sigma> g = Some \<sigma>' \<Longrightarrow> csiCache \<sigma>' = csiCache \<sigma>"
    using False by (rule parseStep_csiCache_same)
  show ?thesis
  proof (intro conjI allI impI)
    show "parseStep E w (\<sigma>\<lparr>csiCache := c2\<rparr>) g = None" if "parseStep E w \<sigma> g = None"
      unfolding p using that by simp
    show "csiCache_ok (csiCache \<sigma>')" if "parseStep E w \<sigma> g = Some \<sigma>'" for \<sigma>'
      using q[OF that] assms(1) by simp
    show "\<exists>c2'. csiCache_ok c2' \<and> parseStep E w (\<sigma>\<lparr>csiCache := c2\<rparr>) g = Some (\<sigma>'\<lparr>csiCache := c2'\<rparr>)"
      if "parseStep E w \<sigma> g = Some \<sigma>'" for \<sigma>'
      unfolding p using that assms(2) by auto
  qed
qed

lemma parseLoop_csiCache:
  assumes "csiCache_ok (csiCache \<sigma>)" "csiCache_ok c2"
  shows "(parseLoop E w \<sigma> gs = None \<longrightarrow> parseLoop E w (\<sigma>\<lparr>csiCache := c2\<rparr>) gs = None) \<and>
         (\<forall>\<sigma>'. parseLoop E w \<sigma> gs = Some \<sigma>' \<longrightarrow>
            csiCache_ok (csiCache \<sigma>') \<and>
            (\<exists>c2'. csiCache_ok c2' \<and>
                parseLoop E w (\<sigma>\<lparr>csiCache := c2\<rparr>) gs = Some (\<sigma>'\<lparr>csiCache := c2'\<rparr>)))"
  using assms
proof (induction gs arbitrary: \<sigma> c2)
  case Nil
  then show ?case by auto
next
  case (Cons g gs)
  show ?case
  proof (cases "parseStep E w \<sigma> g")
    case None
    then show ?thesis using parseStep_csiCache[OF Cons.prems, of E w g] by simp
  next
    case (Some \<sigma>1)
    from parseStep_csiCache[OF Cons.prems, of E w g] Some
    obtain c3 where c3: "csiCache_ok (csiCache \<sigma>1)" "csiCache_ok c3"
        "parseStep E w (\<sigma>\<lparr>csiCache := c2\<rparr>) g = Some (\<sigma>1\<lparr>csiCache := c3\<rparr>)"
      by blast
    from Cons.IH[OF c3(1,2)] Some c3(3) show ?thesis by simp
  qed
qed

subsection \<open>The plain text round trip\<close>




































section \<open>The SGR style resolver: reset and clearing tokens\<close>

text \<open>Claim C6. For every prior style and whatever the cache holds, \<^verbatim>\<open>csToStyle\<close> on the
  parameter string \<^verbatim>\<open>0\<close>, on the empty string and on \<^verbatim>\<open>;\<close> returns
  \<^verbatim>\<open>tcell.StyleDefault.Normal()\<close>, the default style with its attributes cleared, and leaves
  the cache as it was: the test comes before the cache is consulted.\<close>

theorem csToStyle_reset:
  "csToStyle E cch sty ''0'' = (StyleNormal E (StyleDefault E), cch) \<and>
   csToStyle E cch sty [] = (StyleNormal E (StyleDefault E), cch) \<and>
   csToStyle E cch sty '';'' = (StyleNormal E (StyleDefault E), cch)"
  by (simp add: csToStyle_def)

theorem csToStyle_reset_witness:
  "csToStyle sampleEnv [''0'' \<mapsto> ovStyle_zero\<lparr>Bold := True\<rparr>]
       (ovStyle_zero\<lparr>Bold := True, Reverse := True, Foreground := ''red''\<rparr>) ''0''
     = (ovStyle_zero, [''0'' \<mapsto> ovStyle_zero\<lparr>Bold := True\<rparr>])"
  using csToStyle_reset[of sampleEnv "[''0'' \<mapsto> ovStyle_zero\<lparr>Bold := True\<rparr>]"
      "ovStyle_zero\<lparr>Bold := True, Reverse := True, Foreground := ''red''\<rparr>"]
  by (simp add: sampleEnv_def ovStyle_zero_def)

text \<open>Claim C7. A token \<^verbatim>\<open>22\<close>, \<^verbatim>\<open>24\<close>, \<^verbatim>\<open>25\<close> or \<^verbatim>\<open>27\<close> that the loop of \<^verbatim>\<open>parseCSI\<close>
  reaches replaces the whole accumulated attribute record (all flags and both colours)
  by the empty record, whatever the record was. For parameter strings: when no token
  before it is \<^verbatim>\<open>38\<close> or \<^verbatim>\<open>48\<close> (which would consume following tokens as arguments), a
  string ending in such a token parses to the empty record, and what follows the token
  is parsed as if it stood alone.\<close>

theorem parseCSI_clear_tokens:
  assumes "tok \<in> set [''22'', ''24'', ''25'', ''27'']"
  shows "parseCSI_fields st (tok # rest) = parseCSI_fields ovStyle_zero rest \<and>
         ((\<forall>f \<in> set (Split p (CHR '';'')). f \<noteq> ''38'' \<and> f \<noteq> ''48'') \<longrightarrow>
            parseCSI (p @ CHR '';'' # tok) = ovStyle_zero \<and>
            parseCSI (p @ CHR '';'' # tok @ CHR '';'' # q) = parseCSI q)"
proof (intro conjI impI)
  show "parseCSI_fields st (tok # rest) = parseCSI_fields ovStyle_zero rest"
    by (rule parseCSI_fields_clear[OF assms])
next
  assume p: "\<forall>f \<in> set (Split p (CHR '';'')). f \<noteq> ''38'' \<and> f \<noteq> ''48''"
  have s1: "Split (p @ CHR '';'' # tok) (CHR '';'') = Split p (CHR '';'') @ [tok]"
    by (simp only: Split_append Split_token[OF assms])
  have s2: "Split (p @ CHR '';'' # tok @ CHR '';'' # q) (CHR '';'')
              = Split p (CHR '';'') @ tok # Split q (CHR '';'')"
    by (simp only: Split_append Split_token[OF assms] append_Cons append_Nil)
  show "parseCSI (p @ CHR '';'' # tok) = ovStyle_zero"
    unfolding parseCSI_def s1
    by (simp only: parseCSI_fields_append[OF p] parseCSI_fields_clear[OF assms] parseCSI_fields.simps(1))
  show "parseCSI (p @ CHR '';'' # tok @ CHR '';'' # q) = parseCSI q"
    unfolding parseCSI_def s2
    by (simp only: parseCSI_fields_append[OF p] parseCSI_fields_clear[OF assms])
qed

theorem parseCSI_clear_tokens_witness:
  "''22'' \<in> set [''22'', ''24'', ''25'', ''27''] \<and>
   parseCSI_fields (ovStyle_zero\<lparr>Bold := True, Foreground := ''maroon'', Background := ''green''\<rparr>) [''22'', ''4'']
     = parseCSI_fields ovStyle_zero [''4''] \<and>
   Split ''1;31;42'' (CHR '';'') = [''1'', ''31'', ''42''] \<and>
   parseCSI ''1;31;42;22'' = ovStyle_zero \<and>
   parseCSI ''1;31;42;22;4'' = ovStyle_zero\<lparr>Underline := True\<rparr> \<and>
   parseCSI ''1;31;42'' = ovStyle_zero\<lparr>Bold := True, Foreground := ''maroon'', Background := ''green''\<rparr>"
proof -
  have t: "''22'' \<in> set [''22'', ''24'', ''25'', ''27'']" by simp
  have p: "\<forall>f \<in> set (Split ''1;31;42'' (CHR '';'')). f \<noteq> ''38'' \<and> f \<noteq> ''48''" by simp
  have q: "parseCSI ''4'' = ovStyle_zero\<lparr>Underline := True\<rparr>"
    by (simp add: parseCSI_def parseCSI_fields.simps(2))
  have r: "parseCSI ''1;31;42'' = ovStyle_zero\<lparr>Bold := True, Foreground := ''maroon'', Background := ''green''\<rparr>"
    by (simp add: parseCSI_def parseCSI_fields.simps(2) Atoi_def isDigit_def digitsValue_def colorName_def lookupColor_def Let_def)
  show ?thesis
    using parseCSI_clear_tokens[OF t, of "ovStyle_zero\<lparr>Bold := True, Foreground := ''maroon'', Background := ''green''\<rparr>" "[''4'']" "''1;31;42''" "''4''"] t p q r
    by simp
qed

section \<open>Invariants of the parsed line\<close>

text \<open>Claim C1. For every environment, cache, string and tab width the line parser
  (\<^verbatim>\<open>parseString\<close>, and \<^verbatim>\<open>StrToContents\<close> which calls it) returns without a panic, and in
  the cells it returns every cell of width 2 is immediately followed by a cell whose
  \<^verbatim>\<open>mainc\<close> is 0.\<close>

theorem parseString_width_invariant:
  "\<exists>cells cch'. parseString E cch str w = Some (cells, cch') \<and>
      StrToContents E cch str w = Some (cells, cch') \<and>
      (\<forall>i. i < length cells \<and> width (cells ! i) = 2
            \<longrightarrow> Suc i < length cells \<and> mainc (cells ! Suc i) = 0)"
proof -
  obtain cells cch' where p: "parseString E cch str w = Some (cells, cch')" "blocks E cells"
    using parseString_blocks by blast
  have "\<forall>i. i < length cells \<and> width (cells ! i) = 2
            \<longrightarrow> Suc i < length cells \<and> mainc (cells ! Suc i) = 0"
    using blocks_wide_followed[OF p(2)] by (auto simp: DefaultContent_def)
  then show ?thesis using p(1) by (simp add: StrToContents_def)
qed

theorem parseString_width_invariant_witness:
  "\<exists>cells cch'. parseString sampleEnv Map.empty [CHR 0xE3, CHR 0x81, CHR 0x82] 8 = Some (cells, cch') \<and>
      length cells = 2 \<and> width (cells ! 0) = 2 \<and> mainc (cells ! 1) = 0"
  using parseString_width_invariant[of sampleEnv Map.empty "[CHR 0xE3, CHR 0x81, CHR 0x82]" 8]
  by (simp add: sample_parse_wide)

text \<open>Claim C9, as stated, fails: the placeholder that follows a wide character is
  \<^verbatim>\<open>DefaultContent\<close>, whose width is 0, and it is stored in the returned contents. For the
  single Hiragana letter U+3042 the widths of the returned cells are 2 and 0.\<close>

theorem stored_width_counterexample:
  "map width (fst (the (parseString sampleEnv Map.empty [CHR 0xE3, CHR 0x81, CHR 0x82] 8))) = [2, 0]"
  by (simp add: sample_parse_wide)

text \<open>Claim C9, amended. Every cell of the returned contents has width 0, 1 or 2, and a
  cell of width 0 is the blank \<^verbatim>\<open>DefaultContent\<close> standing directly after a cell of
  width 2.\<close>

theorem parseString_stored_widths:
  "\<exists>cells cch'. parseString E cch str w = Some (cells, cch') \<and>
      (\<forall>i. i < length cells \<longrightarrow>
         (width (cells ! i) = 1 \<or> width (cells ! i) = 2 \<or> width (cells ! i) = 0) \<and>
         (width (cells ! i) = 0 \<longrightarrow>
            0 < i \<and> width (cells ! (i - 1)) = 2 \<and> cells ! i = DefaultContent E))"
proof -
  obtain cells cch' where p: "parseString E cch str w = Some (cells, cch')" "blocks E cells"
    using parseString_blocks by blast
  have "\<forall>i. i < length cells \<longrightarrow>
         (width (cells ! i) = 1 \<or> width (cells ! i) = 2 \<or> width (cells ! i) = 0) \<and>
         (width (cells ! i) = 0 \<longrightarrow>
            0 < i \<and> width (cells ! (i - 1)) = 2 \<and> cells ! i = DefaultContent E)"
    using blocks_widths[OF p(2)] by (fastforce simp: DefaultContent_def)
  then show ?thesis using p(1) by blast
qed

theorem parseString_stored_widths_witness:
  "\<exists>cells cch'. parseString sampleEnv Map.empty [CHR 0xE3, CHR 0x81, CHR 0x82] 8 = Some (cells, cch') \<and>
      map width cells = [2, 0] \<and> cells ! 1 = DefaultContent sampleEnv"
  using parseString_stored_widths[of sampleEnv Map.empty "[CHR 0xE3, CHR 0x81, CHR 0x82]" 8]
  unfolding sample_parse_wide
  by (simp add: DefaultContent_def sampleEnv_def)

text \<open>Claim C10. A rune of width 0 other than tab and backspace (and other than escape
  and newline, which are handled before the width is looked at) that arrives in the text
  state while no cell has been emitted leaves the whole parser state as it is: no cell
  is added, nothing is written, and the step does not panic. A line that consists of
  such a cluster alone parses to the empty contents.\<close>

theorem zero_width_mark_without_cell:
  assumes "RuneWidth E r = 0" "r \<noteq> 9" "r \<noteq> 8" "r \<noteq> 0x1b" "r \<noteq> 0x0a"
  shows "(state \<sigma> = ansiText \<and> lc \<sigma> = [] \<longrightarrow> parseStep E w \<sigma> (r, rs) = Some \<sigma>) \<and>
         (Graphemes E str = [(r, rs)] \<longrightarrow> parseString E cch str w = Some ([], cch))"
  using assms
  by (simp add: parse_defs)

theorem zero_width_mark_without_cell_witness:
  "sampleRuneWidth 0x301 = 0 \<and>
   parseStep sampleEnv 8 (initState sampleEnv Map.empty) (0x301, []) = Some (initState sampleEnv Map.empty) \<and>
   Graphemes sampleEnv [CHR 0xCC, CHR 0x81] = [(0x301, [])] \<and>
   parseString sampleEnv Map.empty [CHR 0xCC, CHR 0x81] 8 = Some ([], Map.empty)"
  using zero_width_mark_without_cell[of sampleEnv "0x301" "initState sampleEnv Map.empty" 8 "[]"
      "[CHR 0xCC, CHR 0x81]" Map.empty]
  by (simp add: sample_defs initState_def)

section \<open>Backspace and tab\<close>

text \<open>Claim C4. In the text state, with the contents in block shape (which every state
  the parser reaches has), a backspace
  \<^item> on empty contents changes nothing;
  \<^item> after a cell of width 1 removes that cell, after a wide character removes the wide
    cell and its placeholder, and in both cases remembers the removed character cell in
    \<^verbatim>\<open>bsContent\<close> and sets the flag.

  With the flag set, the next cluster of width 1 or 2 is appended with the overstrike
  style when its rune equals the remembered one, else with the overline style when the
  remembered rune is the underscore, else with the current style; the flag is cleared.
  The line \<^verbatim>\<open>A\bA\<close> parses to the single cell \<^verbatim>\<open>A\<close> in the overstrike style. The
  library facts the code relies on are hypotheses: backspace has width 0, \<^verbatim>\<open>A\<close> has
  width 1, and the three bytes are three clusters.\<close>

theorem backspace_overstrike:
  assumes "RuneWidth E 8 = 0" "state \<sigma> = ansiText" "blocks E (lc \<sigma>)"
  shows
    "(lc \<sigma> = [] \<longrightarrow> parseStep E w \<sigma> (8, rs) = Some \<sigma>) \<and>
     (lc \<sigma> = cs @ [c] \<and> width c = 1 \<longrightarrow>
        parseStep E w \<sigma> (8, rs) =
          Some (\<sigma>\<lparr>bsFlag := True, bsContent := c,
                  b := b \<sigma> - (1 + int (length (encodeRune (mainc c)))), lc := cs\<rparr>)) \<and>
     (lc \<sigma> = cs @ [c, d] \<and> width c = 2 \<longrightarrow>
        parseStep E w \<sigma> (8, rs) =
          Some (\<sigma>\<lparr>bsFlag := True, bsContent := c,
                  b := b \<sigma> - (1 + int (length (encodeRune (mainc c)))), lc := cs\<rparr>)) \<and>
     (bsFlag \<sigma> \<and> RuneWidth E r = 1 \<and> r \<noteq> 0x1b \<and> r \<noteq> 0x0a \<longrightarrow>
        parseStep E w \<sigma> (r, rs) =
          Some (\<sigma>\<lparr>bsFlag := False, bsContent := DefaultContent E,
                  lc := lc \<sigma> @ [\<lparr>width = 1, mainc = r, combc = rs,
                     style = (if mainc (bsContent \<sigma>) = r then OverStrikeStyle E
                              else if mainc (bsContent \<sigma>) = 0x5f then OverLineStyle E
                              else curStyle \<sigma>)\<rparr>],
                  tabX := tabX \<sigma> + 1\<rparr>)) \<and>
     (bsFlag \<sigma> \<and> RuneWidth E r = 2 \<and> r \<noteq> 0x1b \<and> r \<noteq> 0x0a \<longrightarrow>
        parseStep E w \<sigma> (r, rs) =
          Some (\<sigma>\<lparr>bsFlag := False, bsContent := DefaultContent E,
                  lc := lc \<sigma> @ [\<lparr>width = 2, mainc = r, combc = rs,
                     style = (if mainc (bsContent \<sigma>) = r then OverStrikeStyle E
                              else if mainc (bsContent \<sigma>) = 0x5f then OverLineStyle E
                              else curStyle \<sigma>)\<rparr>, DefaultContent E],
                  tabX := tabX \<sigma> + 2\<rparr>)) \<and>
     (Graphemes E (''A'' @ [CHR 0x08] @ ''A'') = [(0x41, []), (8, []), (0x41, [])] \<and>
      RuneWidth E 0x41 = 1 \<longrightarrow>
        parseString E cch (''A'' @ [CHR 0x08] @ ''A'') w =
          Some ([\<lparr>width = 1, mainc = 0x41, combc = [], style = OverStrikeStyle E\<rparr>], cch))"
proof (intro conjI impI)
  show "parseStep E w \<sigma> (8, rs) = Some \<sigma>" if "lc \<sigma> = []"
    using that assms(1,2) by (simp add: parseStep_text_backspace backSpace_def)
  show "parseStep E w \<sigma> (8, rs) =
          Some (\<sigma>\<lparr>bsFlag := True, bsContent := c,
                  b := b \<sigma> - (1 + int (length (encodeRune (mainc c)))), lc := cs\<rparr>)"
    if "lc \<sigma> = cs @ [c] \<and> width c = 1"
    using that assms backSpace_single[of E \<sigma> cs c] by (simp add: parseStep_text_backspace)
  show "parseStep E w \<sigma> (8, rs) =
          Some (\<sigma>\<lparr>bsFlag := True, bsContent := c,
                  b := b \<sigma> - (1 + int (length (encodeRune (mainc c)))), lc := cs\<rparr>)"
    if "lc \<sigma> = cs @ [c, d] \<and> width c = 2"
    using that assms backSpace_wide[of \<sigma> cs c d E] by (simp add: parseStep_text_backspace)
  show "parseStep E w \<sigma> (r, rs) =
          Some (\<sigma>\<lparr>bsFlag := False, bsContent := DefaultContent E,
                  lc := lc \<sigma> @ [\<lparr>width = 1, mainc = r, combc = rs,
                     style = (if mainc (bsContent \<sigma>) = r then OverStrikeStyle E
                              else if mainc (bsContent \<sigma>) = 0x5f then OverLineStyle E
                              else curStyle \<sigma>)\<rparr>],
                  tabX := tabX \<sigma> + 1\<rparr>)"
    if "bsFlag \<sigma> \<and> RuneWidth E r = 1 \<and> r \<noteq> 0x1b \<and> r \<noteq> 0x0a"
    using that assms(2)
    by (simp add: parseStep_def emitCell_def newContent_def overstrike_def DefaultContent_def Let_def)
  show "parseStep E w \<sigma> (r, rs) =
          Some (\<sigma>\<lparr>bsFlag := False, bsContent := DefaultContent E,
                  lc := lc \<sigma> @ [\<lparr>width = 2, mainc = r, combc = rs,
                     style = (if mainc (bsContent \<sigma>) = r then OverStrikeStyle E
                              else if mainc (bsContent \<sigma>) = 0x5f then OverLineStyle E
                              else curStyle \<sigma>)\<rparr>, DefaultContent E],
                  tabX := tabX \<sigma> + 2\<rparr>)"
    if "bsFlag \<sigma> \<and> RuneWidth E r = 2 \<and> r \<noteq> 0x1b \<and> r \<noteq> 0x0a"
    using that assms(2)
    by (simp add: parseStep_def emitCell_def newContent_def overstrike_def DefaultContent_def Let_def)
  show "parseString E cch (''A'' @ [CHR 0x08] @ ''A'') w =
          Some ([\<lparr>width = 1, mainc = 0x41, combc = [], style = OverStrikeStyle E\<rparr>], cch)"
    if "Graphemes E (''A'' @ [CHR 0x08] @ ''A'') = [(0x41, []), (8, []), (0x41, [])] \<and>
      RuneWidth E 0x41 = 1"
    using that assms(1) by (simp add: parse_defs)
qed

theorem backspace_overstrike_witness:
  "parseStep sampleEnv 8
      ((initState sampleEnv Map.empty)
         \<lparr>lc := [\<lparr>width = 1, mainc = 0x41, combc = [], style = ovStyle_zero\<rparr>]\<rparr>) (8, [])
     = Some ((initState sampleEnv Map.empty)
         \<lparr>bsFlag := True,
          bsContent := \<lparr>width = 1, mainc = 0x41, combc = [], style = ovStyle_zero\<rparr>,
          b := - 2\<rparr>) \<and>
   parseStep sampleEnv 8
      ((initState sampleEnv Map.empty)
         \<lparr>bsFlag := True,
          bsContent := \<lparr>width = 1, mainc = 0x41, combc = [], style = ovStyle_zero\<rparr>\<rparr>) (0x41, [])
     = Some ((initState sampleEnv Map.empty)
         \<lparr>bsContent := DefaultContent sampleEnv,
          lc := [\<lparr>width = 1, mainc = 0x41, combc = [], style = ovStyle_zero\<lparr>Bold := True\<rparr>\<rparr>],
          tabX := 1\<rparr>) \<and>
   parseString sampleEnv Map.empty (''A'' @ [CHR 0x08] @ ''A'') 8 =
     Some ([\<lparr>width = 1, mainc = 0x41, combc = [], style = ovStyle_zero\<lparr>Bold := True\<rparr>\<rparr>], Map.empty)"
proof -
  let ?A = "\<lparr>width = 1, mainc = 0x41, combc = [], style = ovStyle_zero\<rparr> :: ovStyle content"
  let ?s1 = "(initState sampleEnv Map.empty)\<lparr>lc := [?A]\<rparr>"
  let ?s2 = "(initState sampleEnv Map.empty)\<lparr>bsFlag := True, bsContent := ?A\<rparr>"
  have w8: "RuneWidth sampleEnv 8 = 0" by (simp add: sample_defs)
  have b1: "blocks sampleEnv (lc ?s1)"
    using blocks_single[OF blocks_Nil, of ?A sampleEnv] by simp
  have b2: "blocks sampleEnv (lc ?s2)" by (simp add: initState_def blocks_Nil)
  have t1: "state ?s1 = ansiText" and t2: "state ?s2 = ansiText" by (simp_all add: initState_def)
  have g: "Graphemes sampleEnv (''A'' @ [CHR 0x08] @ ''A'') = [(0x41, []), (8, []), (0x41, [])]"
    by (simp add: sampleEnv_def)
  have wA: "RuneWidth sampleEnv 0x41 = 1" by (simp add: sample_defs)
  from backspace_overstrike[OF w8 t1 b1, where cs="[]" and c="?A" and w=8 and rs="[]"]
  have c1: "parseStep sampleEnv 8 ?s1 (8, []) =
          Some (?s1\<lparr>bsFlag := True, bsContent := ?A,
                  b := b ?s1 - (1 + int (length (encodeRune (mainc ?A)))), lc := []\<rparr>)"
    by simp
  from backspace_overstrike[OF w8 t2 b2, where r="0x41" and rs="[]" and cch=Map.empty and w=8] g wA
  have c2: "parseStep sampleEnv 8 ?s2 (0x41, []) =
          Some (?s2\<lparr>bsFlag := False, bsContent := DefaultContent sampleEnv,
                  lc := lc ?s2 @ [\<lparr>width = 1, mainc = 0x41, combc = [],
                     style = (if mainc (bsContent ?s2) = 0x41 then OverStrikeStyle sampleEnv
                              else if mainc (bsContent ?s2) = 0x5f then OverLineStyle sampleEnv
                              else curStyle ?s2)\<rparr>],
                  tabX := tabX ?s2 + 1\<rparr>)"
    and c3: "parseString sampleEnv Map.empty (''A'' @ [CHR 0x08] @ ''A'') 8 =
          Some ([\<lparr>width = 1, mainc = 0x41, combc = [], style = OverStrikeStyle sampleEnv\<rparr>], Map.empty)"
    by (simp_all add: initState_def)
  show ?thesis
    unfolding c1 c2 c3 by (simp add: initState_def sampleEnv_def encodeRune_def)
qed

text \<open>What a tab appends in the text state, measured by the column counter \<^verbatim>\<open>tabX\<close>:
  \<^item> for a positive tab width the visible tab cell and blank cells of width 1 up to the
    next multiple of the tab width of the counter, which ends on that multiple;
  \<^item> for a negative tab width the two cells backslash and \<^verbatim>\<open>t\<close> in the reversed current
    style;
  \<^item> for tab width 0 nothing.

  The line \<^verbatim>\<open>a\tb\<close> with tab width 4 parses to five cells, with \<^verbatim>\<open>b\<close> at index 4. That a
  tab has width 0, as the code expects of the library, is a hypothesis; that the column
  counter is not negative holds in every state the parser reaches
  (\<open>parseLoop_tabX_nonneg\<close>).\<close>

lemma tab_by_column_counter:
  assumes "RuneWidth E 9 = 0" "state \<sigma> = ansiText"
  shows
    "(0 < w \<and> 0 \<le> tabX \<sigma> \<longrightarrow>
        parseStep E w \<sigma> (9, rs) =
          Some (\<sigma>\<lparr>lc := lc \<sigma> @ \<lparr>width = 1, mainc = 9, combc = [], style = curStyle \<sigma>\<rparr>
                          # replicate (nat (w - 1 - tabX \<sigma> mod w))
                              \<lparr>width = 1, mainc = 0, combc = [], style = curStyle \<sigma>\<rparr>,
                  tabX := tabX \<sigma> + (w - tabX \<sigma> mod w)\<rparr>) \<and>
        (tabX \<sigma> + (w - tabX \<sigma> mod w)) mod w = 0 \<and>
        tabX \<sigma> < tabX \<sigma> + (w - tabX \<sigma> mod w)) \<and>
     (w < 0 \<longrightarrow>
        parseStep E w \<sigma> (9, rs) =
          Some (\<sigma>\<lparr>lc := lc \<sigma> @
                    [\<lparr>width = 1, mainc = 0x5c, combc = [], style = StyleReverse E (curStyle \<sigma>) True\<rparr>,
                     \<lparr>width = 1, mainc = 0x74, combc = [], style = StyleReverse E (curStyle \<sigma>) True\<rparr>],
                  tabX := tabX \<sigma> + 2\<rparr>)) \<and>
     (w = 0 \<longrightarrow> parseStep E w \<sigma> (9, rs) = Some \<sigma>) \<and>
     (Graphemes E (''a'' @ [CHR 0x09] @ ''b'') = [(0x61, []), (9, []), (0x62, [])] \<and>
      RuneWidth E 0x61 = 1 \<and> RuneWidth E 0x62 = 1 \<longrightarrow>
        parseString E cch (''a'' @ [CHR 0x09] @ ''b'') 4 =
          Some ([\<lparr>width = 1, mainc = 0x61, combc = [], style = StyleDefault E\<rparr>,
                 \<lparr>width = 1, mainc = 9, combc = [], style = StyleDefault E\<rparr>,
                 \<lparr>width = 1, mainc = 0, combc = [], style = StyleDefault E\<rparr>,
                 \<lparr>width = 1, mainc = 0, combc = [], style = StyleDefault E\<rparr>,
                 \<lparr>width = 1, mainc = 0x62, combc = [], style = StyleDefault E\<rparr>], cch))"
proof (intro conjI impI)
  have step: "parseStep E w \<sigma> (9, rs) = Some (emitTab E w \<sigma>)"
    using assms by (simp add: parseStep_def emitCell_def)
  show "parseStep E w \<sigma> (9, rs) =
          Some (\<sigma>\<lparr>lc := lc \<sigma> @ \<lparr>width = 1, mainc = 9, combc = [], style = curStyle \<sigma>\<rparr>
                          # replicate (nat (w - 1 - tabX \<sigma> mod w))
                              \<lparr>width = 1, mainc = 0, combc = [], style = curStyle \<sigma>\<rparr>,
                  tabX := tabX \<sigma> + (w - tabX \<sigma> mod w)\<rparr>)"
    if h: "0 < w \<and> 0 \<le> tabX \<sigma>"
  proof -
    have m: "tabX \<sigma> smod w = tabX \<sigma> mod w" using h by (simp add: smod_nonneg)
    have lt: "tabX \<sigma> mod w < w" using h by simp
    have k: "1 + int (nat (w - tabX \<sigma> mod w - 1)) = w - tabX \<sigma> mod w" using lt by simp
    have e: "w - 1 - tabX \<sigma> mod w = w - tabX \<sigma> mod w - 1" by simp
    show ?thesis unfolding step e using h k
      by (simp add: emitTab_def Let_def m DefaultContent_def add.assoc)
  qed
  show "(tabX \<sigma> + (w - tabX \<sigma> mod w)) mod w = 0" if h: "0 < w \<and> 0 \<le> tabX \<sigma>"
  proof -
    have "tabX \<sigma> + (w - tabX \<sigma> mod w) = w + (tabX \<sigma> - tabX \<sigma> mod w)" by simp
    also have "\<dots> mod w = (tabX \<sigma> - tabX \<sigma> mod w) mod w" by simp
    also have "\<dots> = 0" by (simp add: minus_mod_eq_mult_div)
    finally show ?thesis .
  qed
  show "tabX \<sigma> < tabX \<sigma> + (w - tabX \<sigma> mod w)" if h: "0 < w \<and> 0 \<le> tabX \<sigma>"
  proof -
    have "tabX \<sigma> mod w < w" using h by simp
    then show ?thesis by simp
  qed
  show "parseStep E w \<sigma> (9, rs) =
          Some (\<sigma>\<lparr>lc := lc \<sigma> @
                    [\<lparr>width = 1, mainc = 0x5c, combc = [], style = StyleReverse E (curStyle \<sigma>) True\<rparr>,
                     \<lparr>width = 1, mainc = 0x74, combc = [], style = StyleReverse E (curStyle \<sigma>) True\<rparr>],
                  tabX := tabX \<sigma> + 2\<rparr>)" if "w < 0"
    unfolding step using that by (simp add: emitTab_def Let_def DefaultContent_def)
  show "parseStep E w \<sigma> (9, rs) = Some \<sigma>" if "w = 0"
    unfolding step using that by (simp add: emitTab_def)
  show "parseString E cch (''a'' @ [CHR 0x09] @ ''b'') 4 =
          Some ([\<lparr>width = 1, mainc = 0x61, combc = [], style = StyleDefault E\<rparr>,
                 \<lparr>width = 1, mainc = 9, combc = [], style = StyleDefault E\<rparr>,
                 \<lparr>width = 1, mainc = 0, combc = [], style = StyleDefault E\<rparr>,
                 \<lparr>width = 1, mainc = 0, combc = [], style = StyleDefault E\<rparr>,
                 \<lparr>width = 1, mainc = 0x62, combc = [], style = StyleDefault E\<rparr>], cch)"
    if "Graphemes E (''a'' @ [CHR 0x09] @ ''b'') = [(0x61, []), (9, []), (0x62, [])] \<and>
      RuneWidth E 0x61 = 1 \<and> RuneWidth E 0x62 = 1"
    using that assms(1) by (simp add: parse_defs smod_int_alt_def numeral_eq_Suc)
qed

text \<open>Claim C5. The claim is that a tab emits, for a positive tab width, the visible tab
  cell and then blank padding cells up to the next tab stop, for a negative tab width
  the two characters backslash and \<^verbatim>\<open>t\<close> in reverse video, and for tab width 0 no cell;
  and that the line \<^verbatim>\<open>a\tb\<close> with tab width 4 parses to five cells with \<^verbatim>\<open>b\<close> at index 4.

  The code computes the padding from the column counter \<^verbatim>\<open>tabX\<close>
  (\<open>tab_by_column_counter\<close>). While the counter equals the number of cells, the padding
  ends on the next tab stop (\<open>tab_reaches_stop\<close>). Every branch that appends cells
  advances the counter by their number (\<open>parseStep_counter_in_step\<close>), so the two are
  equal throughout a line without backspace (\<open>parseLoop_counter_in_step\<close>). The
  backspace branch removes one or two cells, lowers the byte position \<^verbatim>\<open>b\<close>, which
  nothing reads, and leaves \<^verbatim>\<open>tabX\<close> as it is (\<open>backSpace_counter_ahead\<close>): from then on
  the counter is ahead of the column and a tab is padded short of its stop.

  The line \<^verbatim>\<open>a\tb\<close> with tab width 4 parses as the claim says. The line made of \<^verbatim>\<open>A\<close>, a
  backspace, \<^verbatim>\<open>A\<close>, a tab and \<^verbatim>\<open>b\<close> (an overstruck \<^verbatim>\<open>A\<close>, as \<^verbatim>\<open>man\<close> prints bold text)
  parses with tab width 4 to four cells: the tab at index 1 gets one padding cell and
  \<^verbatim>\<open>b\<close> lands at index 3, where the claim has the padding run up to the tab stop at
  index 4. Without the overstrike, the line \<^verbatim>\<open>A\tb\<close> parses to five cells with \<^verbatim>\<open>b\<close> at
  index 4.\<close>

theorem tab_short_of_stop_after_backspace:
  "parseString sampleEnv Map.empty (''a'' @ [CHR 0x09] @ ''b'') 4 =
     Some ([\<lparr>width = 1, mainc = 0x61, combc = [], style = ovStyle_zero\<rparr>,
            \<lparr>width = 1, mainc = 9, combc = [], style = ovStyle_zero\<rparr>,
            \<lparr>width = 1, mainc = 0, combc = [], style = ovStyle_zero\<rparr>,
            \<lparr>width = 1, mainc = 0, combc = [], style = ovStyle_zero\<rparr>,
            \<lparr>width = 1, mainc = 0x62, combc = [], style = ovStyle_zero\<rparr>], Map.empty) \<and>
   parseString sampleEnv Map.empty (''A'' @ [CHR 0x08] @ ''A'' @ [CHR 0x09] @ ''b'') 4 =
     Some ([\<lparr>width = 1, mainc = 0x41, combc = [], style = ovStyle_zero\<lparr>Bold := True\<rparr>\<rparr>,
            \<lparr>width = 1, mainc = 9, combc = [], style = ovStyle_zero\<rparr>,
            \<lparr>width = 1, mainc = 0, combc = [], style = ovStyle_zero\<rparr>,
            \<lparr>width = 1, mainc = 0x62, combc = [], style = ovStyle_zero\<rparr>], Map.empty) \<and>
   parseString sampleEnv Map.empty (''A'' @ [CHR 0x09] @ ''b'') 4 =
     Some ([\<lparr>width = 1, mainc = 0x41, combc = [], style = ovStyle_zero\<rparr>,
            \<lparr>width = 1, mainc = 9, combc = [], style = ovStyle_zero\<rparr>,
            \<lparr>width = 1, mainc = 0, combc = [], style = ovStyle_zero\<rparr>,
            \<lparr>width = 1, mainc = 0, combc = [], style = ovStyle_zero\<rparr>,
            \<lparr>width = 1, mainc = 0x62, combc = [], style = ovStyle_zero\<rparr>], Map.empty)"
  by (simp add: parse_defs sample_defs smod_int_alt_def numeral_eq_Suc)

section \<open>The line buffer model\<close>

text \<open>Claim C2. \<^verbatim>\<open>lineToContents\<close> returns the out-of-range error exactly when the line
  number is negative or not below \<^verbatim>\<open>BufEndNum\<close>. In range, a cached value that is not a
  \<^verbatim>\<open>lineContents\<close> gives the fatal-cache error, which is a different error; a cached
  \<^verbatim>\<open>lineContents\<close> is returned as it is, with the model unchanged; and on a miss the line
  is parsed (which never panics), handed to the cache with cost 1 and returned, with no
  error.\<close>

theorem lineToContents_contract:
  "((\<exists>m' cch'. lineToContents E cch m n w = Some (Inl ErrOutOfRange, m', cch'))
       \<longleftrightarrow> (n < 0 \<or> n \<ge> BufEndNum m)) \<and>
   (n < 0 \<or> n \<ge> BufEndNum m \<longrightarrow> lineToContents E cch m n w = Some (Inl ErrOutOfRange, m, cch)) \<and>
   (0 \<le> n \<and> n < BufEndNum m \<and> cache m n = Some OtherValue \<longrightarrow>
      lineToContents E cch m n w = Some (Inl ErrFatalCache, m, cch) \<and> ErrFatalCache \<noteq> ErrOutOfRange) \<and>
   (0 \<le> n \<and> n < BufEndNum m \<and> cache m n = Some (LineContentsValue cells) \<longrightarrow>
      lineToContents E cch m n w = Some (Inr cells, m, cch)) \<and>
   (0 \<le> n \<and> n < BufEndNum m \<and> cache m n = None \<longrightarrow>
      (\<exists>parsed cch'. parseString E cch (GetLine m n) w = Some (parsed, cch') \<and>
         lineToContents E cch m n w =
           Some (Inr parsed, m\<lparr>cache := cacheSet E (cache m) n (LineContentsValue parsed) 1\<rparr>, cch')))"
proof (intro conjI impI)
  show "(\<exists>m' cch'. lineToContents E cch m n w = Some (Inl ErrOutOfRange, m', cch'))
       \<longleftrightarrow> (n < 0 \<or> n \<ge> BufEndNum m)"
    by (auto simp: lineToContents_def split: option.splits cacheValue.splits)
  show "lineToContents E cch m n w = Some (Inl ErrOutOfRange, m, cch)" if "n < 0 \<or> n \<ge> BufEndNum m"
    using that by (auto simp: lineToContents_def)
  show "lineToContents E cch m n w = Some (Inl ErrFatalCache, m, cch)"
    if "0 \<le> n \<and> n < BufEndNum m \<and> cache m n = Some OtherValue"
    using that by (simp add: lineToContents_def)
  show "ErrFatalCache \<noteq> ErrOutOfRange" by simp
  show "lineToContents E cch m n w = Some (Inr cells, m, cch)"
    if "0 \<le> n \<and> n < BufEndNum m \<and> cache m n = Some (LineContentsValue cells)"
    using that by (simp add: lineToContents_def)
  show "\<exists>parsed cch'. parseString E cch (GetLine m n) w = Some (parsed, cch') \<and>
         lineToContents E cch m n w =
           Some (Inr parsed, m\<lparr>cache := cacheSet E (cache m) n (LineContentsValue parsed) 1\<rparr>, cch')"
    if h: "0 \<le> n \<and> n < BufEndNum m \<and> cache m n = None"
  proof -
    obtain parsed cch' where p: "parseString E cch (GetLine m n) w = Some (parsed, cch')"
      using parseString_blocks[of E cch "GetLine m n" w] by blast
    then show ?thesis using h by (simp add: lineToContents_def)
  qed
qed

theorem lineToContents_contract_witness:
  "lineToContents sampleEnv Map.empty sampleModel 2 8 = Some (Inl ErrOutOfRange, sampleModel, Map.empty) \<and>
   lineToContents sampleEnv Map.empty sampleModel (- 1) 8 = Some (Inl ErrOutOfRange, sampleModel, Map.empty) \<and>
   lineToContents sampleEnv Map.empty sampleModel 0 8 = Some (Inl ErrFatalCache, sampleModel, Map.empty) \<and>
   lineToContents sampleEnv Map.empty (sampleModel\<lparr>cache := [0 \<mapsto> LineContentsValue []]\<rparr>) 0 8 =
     Some (Inr [], sampleModel\<lparr>cache := [0 \<mapsto> LineContentsValue []]\<rparr>, Map.empty) \<and>
   lineToContents sampleEnv Map.empty sampleModel 1 8 =
     Some (Inr [\<lparr>width = 1, mainc = 0x41, combc = [], style = ovStyle_zero\<lparr>Bold := True\<rparr>\<rparr>],
           sampleModel\<lparr>cache := [0 \<mapsto> OtherValue,
              1 \<mapsto> LineContentsValue
                    [\<lparr>width = 1, mainc = 0x41, combc = [], style = ovStyle_zero\<lparr>Bold := True\<rparr>\<rparr>]]\<rparr>,
           Map.empty)"
proof -
  let ?m2 = "sampleModel\<lparr>cache := [0 \<mapsto> LineContentsValue []]\<rparr>"
  have l1: "GetLine sampleModel 1 = ''A'' @ [CHR 0x08] @ ''A''"
    by (simp add: GetLine_def sampleModel_def)
  from lineToContents_contract[of sampleEnv Map.empty sampleModel 2 8]
  have c1: "lineToContents sampleEnv Map.empty sampleModel 2 8 = Some (Inl ErrOutOfRange, sampleModel, Map.empty)"
    by (simp add: BufEndNum_def sampleModel_def)
  from lineToContents_contract[of sampleEnv Map.empty sampleModel "- 1" 8]
  have c2: "lineToContents sampleEnv Map.empty sampleModel (- 1) 8 = Some (Inl ErrOutOfRange, sampleModel, Map.empty)"
    by (simp add: BufEndNum_def sampleModel_def)
  from lineToContents_contract[of sampleEnv Map.empty sampleModel 0 8]
  have c3: "lineToContents sampleEnv Map.empty sampleModel 0 8 = Some (Inl ErrFatalCache, sampleModel, Map.empty)"
    by (simp add: BufEndNum_def sampleModel_def)
  from lineToContents_contract[of sampleEnv Map.empty ?m2 0 8 "[]"]
  have c4: "lineToContents sampleEnv Map.empty ?m2 0 8 = Some (Inr [], ?m2, Map.empty)"
    by (simp add: BufEndNum_def sampleModel_def)
  from lineToContents_contract[of sampleEnv Map.empty sampleModel 1 8]
  have c5: "lineToContents sampleEnv Map.empty sampleModel 1 8 =
     Some (Inr [\<lparr>width = 1, mainc = 0x41, combc = [], style = ovStyle_zero\<lparr>Bold := True\<rparr>\<rparr>],
           sampleModel\<lparr>cache := cacheSet sampleEnv (cache sampleModel) 1
              (LineContentsValue
                    [\<lparr>width = 1, mainc = 0x41, combc = [], style = ovStyle_zero\<lparr>Bold := True\<rparr>\<rparr>]) 1\<rparr>,
           Map.empty)"
    unfolding l1 sample_parse_overstrike by (simp add: BufEndNum_def sampleModel_def)
  show ?thesis
    unfolding c1 c2 c3 c4 c5 by (simp add: sampleEnv_def sampleModel_def)
qed

section \<open>Parsing twice\<close>

text \<open>Claim C8. The functions of the model are deterministic; the one input of
  \<^verbatim>\<open>parseString\<close> that is not an argument of the Go function is the global \<^verbatim>\<open>csiCache\<close>.
  For any two caches the program can reach (every entry holds what \<^verbatim>\<open>parseCSI\<close> returns for
  its key; the empty cache is one, and parsing leaves such a cache) parsing the same
  line with the same tab width yields the same cells, whether the lookups hit or miss.
  In particular a second call, which runs on the cache the first call has left, returns
  the cells of the first.\<close>

theorem parse_twice_same_cells:
  assumes "csiCache_ok c1" "csiCache_ok c2"
  shows "map_option fst (parseString E c1 str w) = map_option fst (parseString E c2 str w) \<and>
         (\<exists>cells c1'. parseString E c1 str w = Some (cells, c1') \<and> csiCache_ok c1' \<and>
             map_option fst (parseString E c1' str w) = Some cells)"
proof -
  obtain cells c1' where p1: "parseString E c1 str w = Some (cells, c1')"
    using parseString_blocks[of E c1 str w] by blast
  then obtain \<sigma>' where l1: "parseLoop E w (initState E c1) (Graphemes E str) = Some \<sigma>'"
      and r: "cells = lc \<sigma>'" "c1' = csiCache \<sigma>'"
    by (auto simp: parseString_def split: option.splits)
  have i1: "csiCache_ok (csiCache (initState E c1))" using assms(1) by (simp add: initState_def)
  have u: "\<And>c. (initState E c1)\<lparr>csiCache := c\<rparr> = initState E c" by (simp add: initState_def)
  have other: "map_option fst (parseString E c str w) = Some cells" if "csiCache_ok c" for c
  proof -
    from parseLoop_csiCache[OF i1 that, of E w "Graphemes E str"] l1
    obtain c' where "parseLoop E w (initState E c) (Graphemes E str) = Some (\<sigma>'\<lparr>csiCache := c'\<rparr>)"
      unfolding u by blast
    then show ?thesis using r by (simp add: parseString_def)
  qed
  have ok1: "csiCache_ok c1'"
    using parseLoop_csiCache[OF i1 assms(2), of E w "Graphemes E str"] l1 r by blast
  show ?thesis
  proof (intro conjI)
    show "map_option fst (parseString E c1 str w) = map_option fst (parseString E c2 str w)"
      by (simp only: other[OF assms(1)] other[OF assms(2)])
    show "\<exists>cells c1'. parseString E c1 str w = Some (cells, c1') \<and> csiCache_ok c1' \<and>
             map_option fst (parseString E c1' str w) = Some cells"
      using p1 ok1 other[OF ok1] by blast
  qed
qed

theorem parse_twice_same_cells_witness:
  "parseString sampleEnv Map.empty ([CHR 0x1b] @ ''[1mx'') 8 =
     Some ([\<lparr>width = 1, mainc = 0x78, combc = [], style = ovStyle_zero\<lparr>Bold := True\<rparr>\<rparr>],
           [''1'' \<mapsto> ovStyle_zero\<lparr>Bold := True\<rparr>]) \<and>
   map_option fst (parseString sampleEnv [''1'' \<mapsto> ovStyle_zero\<lparr>Bold := True\<rparr>] ([CHR 0x1b] @ ''[1mx'') 8) =
     Some [\<lparr>width = 1, mainc = 0x78, combc = [], style = ovStyle_zero\<lparr>Bold := True\<rparr>\<rparr>]"
proof -
  have p1: "parseCSI ''1'' = ovStyle_zero\<lparr>Bold := True\<rparr>"
    by (simp add: parseCSI_def parseCSI_fields.simps(2))
  have e: "parseString sampleEnv Map.empty ([CHR 0x1b] @ ''[1mx'') 8 =
     Some ([\<lparr>width = 1, mainc = 0x78, combc = [], style = ovStyle_zero\<lparr>Bold := True\<rparr>\<rparr>],
           [''1'' \<mapsto> ovStyle_zero\<lparr>Bold := True\<rparr>])"
    by (simp add: parse_defs sample_defs csToStyle_def encodeRune_def char_of_def p1
          sampleApplyStyle_def ovStyle_zero_def)
  have o1: "csiCache_ok Map.empty" by (rule csiCache_ok_empty)
  have o2: "csiCache_ok [''1'' \<mapsto> ovStyle_zero\<lparr>Bold := True\<rparr>]"
    using p1 by (simp add: csiCache_ok_def)
  from parse_twice_same_cells[OF o1 o2, of sampleEnv "[CHR 0x1b] @ ''[1mx''" 8] e
  show ?thesis by simp
qed

section \<open>The plain text round trip\<close>




end
